theory Spec2Isabelle
  imports
    Main
    "HOL-Library.AList"
    "HOL-Library.Char_ord"
    "HOL-Library.List_Lexorder"
    "HOL-Library.Product_Lexorder"
begin

section \<open>Song of the day: selection engine and daily trigger\<close>

text \<open>
  A shallow embedding of \<^verbatim>\<open>src/discord_bot/song_of_day_test.py\<close>, the file whose
  selection routine is marked authoritative, and of the functions of
  \<^verbatim>\<open>src/discord_bot/song_of_day_bot.py\<close> that differ from it (with the suffix
  \<open>_bot\<close> where the two files share a name).

  What lies outside the two files is a parameter of the model:
  \<^item> the catalog returned by \<^verbatim>\<open>get_all_tracks()\<close> is the argument \<open>tracks\<close>;
  \<^item> the wall clock (\<^verbatim>\<open>date.today()\<close>, \<^verbatim>\<open>datetime.now()\<close>) is the argument
    \<open>today\<close> or \<open>now\<close>, the readings of one run falling on one day;
  \<^item> the generator behind \<^verbatim>\<open>random.choice\<close> is a natural number \<open>r\<close>, the
    element chosen being the one at index \<open>r mod length xs\<close>, so that every element
    can be chosen;
  \<^item> \<^verbatim>\<open>client.get_channel\<close> is the predicate \<open>get_channel\<close> telling which channel
    ids resolve.

  Building the embed from a track and delivering a message are taken to succeed; what
  is recorded of an announcement is the channel, the date of its label and the track.

  A function that can raise returns a sum: \<open>Inl\<close> of the exception, or \<open>Inr\<close> of its
  value.
\<close>

subsection \<open>Exceptions\<close>

datatype exn = ValueError | KeyError | IndexError | JSONDecodeError | UnicodeDecodeError

subsection \<open>Calendar dates and their ISO text\<close>

text \<open>
  A \<^verbatim>\<open>datetime.date\<close> is the triple (year, month, day). Python compares dates as
  these triples, lexicographically, which is the order of the product type here.
\<close>

type_synonym date = "nat \<times> nat \<times> nat"

definition is_leap :: "nat \<Rightarrow> bool" where
  "is_leap y \<longleftrightarrow> y mod 4 = 0 \<and> (y mod 100 \<noteq> 0 \<or> y mod 400 = 0)"

definition days_in_month :: "nat \<Rightarrow> nat \<Rightarrow> nat" where
  "days_in_month y m =
     (if m = 2 then (if is_leap y then 29 else 28)
      else if m = 4 \<or> m = 6 \<or> m = 9 \<or> m = 11 then 30 else 31)"

text \<open>The check made by the \<^verbatim>\<open>date\<close> constructor (\<^verbatim>\<open>MINYEAR = 1\<close>, \<^verbatim>\<open>MAXYEAR = 9999\<close>).\<close>

definition check_date_args :: "nat \<Rightarrow> nat \<Rightarrow> nat \<Rightarrow> bool" where
  "check_date_args y m d \<longleftrightarrow>
     1 \<le> y \<and> y \<le> 9999 \<and> 1 \<le> m \<and> m \<le> 12 \<and> 1 \<le> d \<and> d \<le> days_in_month y m"

definition valid_date :: "date \<Rightarrow> bool" where
  "valid_date dt = (case dt of (y, m, d) \<Rightarrow> check_date_args y m d)"

definition is_digit :: "char \<Rightarrow> bool" where
  "is_digit c \<longleftrightarrow> 48 \<le> (of_char c :: nat) \<and> (of_char c :: nat) \<le> 57"

definition digit_val :: "char \<Rightarrow> nat" where
  "digit_val c = of_char c - 48"

definition digit_char :: "nat \<Rightarrow> char" where
  "digit_char n = char_of (48 + n mod 10)"

text \<open>
  \<^verbatim>\<open>date.fromisoformat\<close> as it is up to Python 3.10: exactly ten characters,
  \<^verbatim>\<open>YYYY-MM-DD\<close> with ASCII digits, then the constructor's range check; anything else
  raises \<^verbatim>\<open>ValueError\<close>. This is also the only format \<^verbatim>\<open>date.isoformat\<close> writes.
\<close>

fun fromisoformat :: "string \<Rightarrow> exn + date" where
  "fromisoformat [y1, y2, y3, y4, s1, m1, m2, s2, d1, d2] =
     (if is_digit y1 \<and> is_digit y2 \<and> is_digit y3 \<and> is_digit y4 \<and> s1 = CHR ''-''
         \<and> is_digit m1 \<and> is_digit m2 \<and> s2 = CHR ''-'' \<and> is_digit d1 \<and> is_digit d2
      then
        (let y = 10 * (10 * (10 * digit_val y1 + digit_val y2) + digit_val y3) + digit_val y4;
             m = 10 * digit_val m1 + digit_val m2;
             d = 10 * digit_val d1 + digit_val d2
         in if check_date_args y m d then Inr (y, m, d) else Inl ValueError)
      else Inl ValueError)"
| "fromisoformat _ = Inl ValueError"

text \<open>\<^verbatim>\<open>date.isoformat\<close>: \<^verbatim>\<open>"%04d-%02d-%02d"\<close>.\<close>

definition isoformat :: "date \<Rightarrow> string" where
  "isoformat dt =
     (case dt of (y, m, d) \<Rightarrow>
        [digit_char (y div 1000), digit_char (y div 100), digit_char (y div 10), digit_char y,
         CHR ''-'', digit_char (m div 10), digit_char m,
         CHR ''-'', digit_char (d div 10), digit_char d])"

text \<open>
  \<^verbatim>\<open>str.strip()\<close> with no argument removes leading and trailing whitespace; these are
  the whitespace characters below code point 256.
\<close>

definition isspace :: "char \<Rightarrow> bool" where
  "isspace c \<longleftrightarrow> (of_char c :: nat) \<in> {9, 10, 11, 12, 13, 28, 29, 30, 31, 32, 133, 160}"

definition strip :: "string \<Rightarrow> string" where
  "strip s = rev (dropWhile isspace (rev (dropWhile isspace s)))"

subsection \<open>Tracks and the persisted files\<close>

text \<open>
  A track as section 3 of the specification describes it; the catalog gives each track
  as a dictionary with at least these entries, so a track is never an empty dictionary
  and \<^verbatim>\<open>if song:\<close> tests only whether a track was found.
\<close>

record track =
  track_id :: string
  name :: string
  artists :: "string list"
  artwork :: string
  url :: string

text \<open>
  The state files are regular files that the process may open, read and write. A JSON
  state file is
  \<^item> absent (\<^verbatim>\<open>os.path.exists\<close> is false);
  \<^item> or holds bytes that are not text in the encoding the file is opened with, so that
    reading it raises \<^verbatim>\<open>UnicodeDecodeError\<close> (\<open>Undecodable\<close>);
  \<^item> or holds text on which \<^verbatim>\<open>json.load\<close> raises \<^verbatim>\<open>JSONDecodeError\<close> (\<open>Garbage\<close>, with
    the text);
  \<^item> or holds the document of a value (\<open>Doc\<close>).

  The type parameter is the shape of the table: a document of another shape is not
  represented. A text file is absent (\<open>Missing\<close>), or holds bytes that are not text
  (\<open>Binary\<close>), or holds a text.
\<close>

datatype 'a jfile = Absent | Undecodable | Garbage string | Doc 'a

datatype tfile = Missing | Binary | Text string

text \<open>
  A dictionary is an association list read through \<open>map_of\<close>. The array in
  \<^verbatim>\<open>used_songs.json\<close> is only read through \<^verbatim>\<open>set(...)\<close> and written through
  \<^verbatim>\<open>list(...)\<close> of a set, whose order Python leaves open: the file is modelled by
  the set the array denotes. \<^verbatim>\<open>last_run.txt\<close> is a text file.
\<close>

record files =
  used_songs_file :: "string set jfile"
  channel_config_file :: "(string \<times> nat) list jfile"
  scheduled_songs_file :: "(string \<times> string) list jfile"
  allowed_roles_file :: "(string \<times> string list) list jfile"
  last_run_file :: tfile

text \<open>
  The effects a run has on the outside, in the order it performs them: whole-file
  writes, announcements sent to a channel (channel id, date of the label, track), and
  replies to the invoking command.
\<close>

datatype effect =
    WriteUsedSongs "string set"
  | WriteChannelConfig "(string \<times> nat) list"
  | WriteScheduledSongs "(string \<times> string) list"
  | WriteAllowedRoles "(string \<times> string list) list"
  | WriteLastRun string
  | Send nat date track
  | Reply string

record world =
  disk :: files
  journal :: "effect list"

fun apply_effect :: "effect \<Rightarrow> files \<Rightarrow> files" where
  "apply_effect (WriteUsedSongs d) fs = fs\<lparr>used_songs_file := Doc d\<rparr>"
| "apply_effect (WriteChannelConfig d) fs = fs\<lparr>channel_config_file := Doc d\<rparr>"
| "apply_effect (WriteScheduledSongs d) fs = fs\<lparr>scheduled_songs_file := Doc d\<rparr>"
| "apply_effect (WriteAllowedRoles d) fs = fs\<lparr>allowed_roles_file := Doc d\<rparr>"
| "apply_effect (WriteLastRun t) fs = fs\<lparr>last_run_file := Text t\<rparr>"
| "apply_effect (Send c d t) fs = fs"
| "apply_effect (Reply m) fs = fs"

definition perform :: "effect \<Rightarrow> world \<Rightarrow> world" where
  "perform e w = w\<lparr>disk := apply_effect e (disk w), journal := journal w @ [e]\<rparr>"

subsection \<open>State helpers\<close>

text \<open>
  \<^verbatim>\<open>load_json\<close> catches \<^verbatim>\<open>JSONDecodeError\<close> only: on text that is not JSON it returns the
  default, and on bytes that are not text the \<^verbatim>\<open>UnicodeDecodeError\<close> of the read reaches
  the caller. It writes nothing.

  A loader returns what it read together with the world after the call, so that a
  loader that writes (as \<^verbatim>\<open>load_used_songs\<close> of \<^verbatim>\<open>song_of_day_bot.py\<close> does) and one
  that does not have the same type.
\<close>

definition load_json :: "'a jfile \<Rightarrow> 'a \<Rightarrow> exn + 'a" where
  "load_json f dflt =
     (case f of
        Absent \<Rightarrow> Inr dflt
      | Undecodable \<Rightarrow> Inl UnicodeDecodeError
      | Garbage t \<Rightarrow> Inr dflt
      | Doc d \<Rightarrow> Inr d)"

definition load_used_songs :: "world \<Rightarrow> exn + (string set \<times> world)" where
  "load_used_songs w =
     (case load_json (used_songs_file (disk w)) {} of
        Inl e \<Rightarrow> Inl e
      | Inr d \<Rightarrow> Inr (d, w))"

definition save_used_songs :: "string set \<Rightarrow> world \<Rightarrow> world" where
  "save_used_songs d w = perform (WriteUsedSongs d) w"

definition load_channel_config :: "world \<Rightarrow> exn + ((string \<times> nat) list \<times> world)" where
  "load_channel_config w =
     (case load_json (channel_config_file (disk w)) [] of
        Inl e \<Rightarrow> Inl e
      | Inr d \<Rightarrow> Inr (d, w))"

definition save_channel_config :: "(string \<times> nat) list \<Rightarrow> world \<Rightarrow> world" where
  "save_channel_config d w = perform (WriteChannelConfig d) w"

definition load_last_run :: "world \<Rightarrow> exn + (date option \<times> world)" where
  "load_last_run w =
     (case last_run_file (disk w) of
        Missing \<Rightarrow> Inr (None, w)
      | Binary \<Rightarrow> Inl UnicodeDecodeError
      | Text t \<Rightarrow>
          (case fromisoformat (strip t) of
             Inl e \<Rightarrow> Inl e
           | Inr d \<Rightarrow> Inr (Some d, w)))"

definition save_last_run :: "date \<Rightarrow> world \<Rightarrow> world" where
  "save_last_run d w = perform (WriteLastRun (isoformat d)) w"

definition load_scheduled_songs :: "world \<Rightarrow> exn + ((string \<times> string) list \<times> world)" where
  "load_scheduled_songs w =
     (case load_json (scheduled_songs_file (disk w)) [] of
        Inl e \<Rightarrow> Inl e
      | Inr d \<Rightarrow> Inr (d, w))"

definition save_scheduled_songs :: "(string \<times> string) list \<Rightarrow> world \<Rightarrow> world" where
  "save_scheduled_songs d w = perform (WriteScheduledSongs d) w"

definition load_allowed_roles :: "world \<Rightarrow> exn + ((string \<times> string list) list \<times> world)" where
  "load_allowed_roles w =
     (case load_json (allowed_roles_file (disk w)) [] of
        Inl e \<Rightarrow> Inl e
      | Inr d \<Rightarrow> Inr (d, w))"

definition save_allowed_roles :: "(string \<times> string list) list \<Rightarrow> world \<Rightarrow> world" where
  "save_allowed_roles d w = perform (WriteAllowedRoles d) w"

subsection \<open>Song selection\<close>

text \<open>
  The generator of \<^verbatim>\<open>valid_dates\<close> parses every key in turn and raises at the first one
  that is not an ISO date; the keys kept are compared, and later sorted, as strings.
\<close>

fun due_dates :: "string list \<Rightarrow> date \<Rightarrow> exn + string list" where
  "due_dates [] today = Inr []"
| "due_dates (d # ds) today =
     (case fromisoformat d of
        Inl e \<Rightarrow> Inl e
      | Inr dt \<Rightarrow>
          (case due_dates ds today of
             Inl e \<Rightarrow> Inl e
           | Inr rest \<Rightarrow> Inr (if dt \<le> today then d # rest else rest)))"

text \<open>\<^verbatim>\<open>random.choice\<close>: \<^verbatim>\<open>IndexError\<close> on an empty sequence.\<close>

definition choice :: "nat \<Rightarrow> 'a list \<Rightarrow> exn + 'a" where
  "choice r xs = (if xs = [] then Inl IndexError else Inr (xs ! (r mod length xs)))"

text \<open>
  \<^verbatim>\<open>lookup = {t["id"]: t for t in tracks}\<close>: of two tracks with one id the later one
  stays.
\<close>

definition lookup :: "track list \<Rightarrow> string \<Rightarrow> track option" where
  "lookup tracks = map_of (rev (map (\<lambda>t. (track_id t, t)) tracks))"

text \<open>
  The two branches of \<^verbatim>\<open>pick_song\<close> give the song (if any), the set \<open>used\<close> and the
  world; \<^verbatim>\<open>scheduled.pop\<close> raises \<^verbatim>\<open>KeyError\<close> on a missing key.
\<close>

definition pick_scheduled ::
  "track list \<Rightarrow> string \<Rightarrow> (string \<times> string) list \<Rightarrow> string set \<Rightarrow> world
     \<Rightarrow> exn + (track option \<times> string set \<times> world)" where
  "pick_scheduled tracks chosen_date scheduled used w =
     (case map_of scheduled chosen_date of
        None \<Rightarrow> Inl KeyError
      | Some tid \<Rightarrow>
          (let scheduled' = AList.delete chosen_date scheduled;
               w' = save_scheduled_songs scheduled' w
           in Inr (lookup tracks tid, used, w')))"

definition pick_random ::
  "track list \<Rightarrow> nat \<Rightarrow> string set \<Rightarrow> world
     \<Rightarrow> exn + (track option \<times> string set \<times> world)" where
  "pick_random tracks r used w =
     (let unused = filter (\<lambda>t. track_id t \<notin> used) tracks;
          used' = (if unused = [] then {} else used);
          unused' = (if unused = [] then tracks else unused)
      in case choice r unused' of
           Inl e \<Rightarrow> Inl e
         | Inr song \<Rightarrow> Inr (Some song, used', w))"

definition pick_song :: "track list \<Rightarrow> date \<Rightarrow> nat \<Rightarrow> world \<Rightarrow> exn + (track option \<times> world)" where
  "pick_song tracks today r w =
     (if tracks = [] then Inr (None, w)
      else
        (case load_used_songs w of
           Inl e \<Rightarrow> Inl e
         | Inr (used, w1) \<Rightarrow>
             (case load_scheduled_songs w1 of
                Inl e \<Rightarrow> Inl e
              | Inr (scheduled, w2) \<Rightarrow>
                  (case due_dates (map fst scheduled) today of
                     Inl e \<Rightarrow> Inl e
                   | Inr due \<Rightarrow>
                       (let valid_dates = sort due;
                            outcome =
                              (if valid_dates \<noteq> []
                               then pick_scheduled tracks (hd valid_dates) scheduled used w2
                               else pick_random tracks r used w2)
                        in case outcome of
                             Inl e \<Rightarrow> Inl e
                           | Inr (song, used', w3) \<Rightarrow>
                               (case song of
                                  None \<Rightarrow> Inr (None, w3)
                                | Some s \<Rightarrow>
                                    Inr (Some s,
                                         save_used_songs (insert (track_id s) used') w3)))))))"

subsection \<open>Main action and scheduler\<close>

text \<open>
  The loop over \<^verbatim>\<open>channel_config.values()\<close>: one announcement to each channel id that
  resolves, in the order of the dictionary.
\<close>

fun dispatch :: "(nat \<Rightarrow> bool) \<Rightarrow> date \<Rightarrow> track \<Rightarrow> nat list \<Rightarrow> world \<Rightarrow> world" where
  "dispatch get_channel today song [] w = w"
| "dispatch get_channel today song (channel_id # rest) w =
     dispatch get_channel today song rest
       (if get_channel channel_id then perform (Send channel_id today song) w else w)"

definition song_of_the_day ::
  "track list \<Rightarrow> date \<Rightarrow> nat \<Rightarrow> (nat \<Rightarrow> bool) \<Rightarrow> world \<Rightarrow> exn + (bool \<times> world)" where
  "song_of_the_day tracks today r get_channel w =
     (case load_channel_config w of
        Inl e \<Rightarrow> Inl e
      | Inr (channel_config, w1) \<Rightarrow>
          if channel_config = [] then Inr (False, w1)
          else
            (case pick_song tracks today r w1 of
               Inl e \<Rightarrow> Inl e
             | Inr (None, w2) \<Rightarrow> Inr (False, w2)
             | Inr (Some song, w2) \<Rightarrow>
                 Inr (True, dispatch get_channel today song (map snd channel_config) w2)))"

record clock =
  now_date :: date
  now_hour :: nat
  now_minute :: nat
  now_second :: nat

definition POST_HOUR :: nat where "POST_HOUR = 11"
definition POST_MINUTE :: nat where "POST_MINUTE = 30"

text \<open>
  One run of the body of the \<^verbatim>\<open>tasks.loop\<close>. The boolean returned tells whether the
  branch that calls \<^verbatim>\<open>song_of_the_day\<close> was taken (a firing).
\<close>

definition scheduler ::
  "track list \<Rightarrow> clock \<Rightarrow> nat \<Rightarrow> (nat \<Rightarrow> bool) \<Rightarrow> world \<Rightarrow> exn + (bool \<times> world)" where
  "scheduler tracks now r get_channel w =
     (case load_last_run w of
        Inl e \<Rightarrow> Inl e
      | Inr (last_run, w1) \<Rightarrow>
          if now_hour now = POST_HOUR \<and> now_minute now = POST_MINUTE \<and> now_second now < 10
             \<and> last_run \<noteq> Some (now_date now)
          then
            (case song_of_the_day tracks (now_date now) r get_channel w1 of
               Inl e \<Rightarrow> Inl e
             | Inr (posted, w2) \<Rightarrow> Inr (True, save_last_run (now_date now) w2))
          else Inr (False, w1))"


subsection \<open>Permission check and slash commands\<close>

text \<open>
  What the commands read of a \<^verbatim>\<open>discord.Interaction\<close>: whether the user is an
  administrator, \<^verbatim>\<open>str(interaction.guild.id)\<close>, and the names of the user's roles.
\<close>

record interaction =
  administrator :: bool
  guild_id :: string
  user_roles :: "string list"

definition is_allowed :: "interaction \<Rightarrow> world \<Rightarrow> exn + bool" where
  "is_allowed i w =
     (if administrator i then Inr True
      else
        (case load_allowed_roles w of
           Inl e \<Rightarrow> Inl e
         | Inr (roles, w1) \<Rightarrow>
             (let allowed_roles = (case map_of roles (guild_id i) of None \<Rightarrow> [] | Some rs \<Rightarrow> rs)
              in Inr (list_ex (\<lambda>role. role \<in> set allowed_roles) (user_roles i)))))"

text \<open>\<^verbatim>\<open>sep in s\<close> and \<^verbatim>\<open>s.split(sep)\<close> for a separator that is not empty.\<close>

fun str_contains :: "string \<Rightarrow> string \<Rightarrow> bool" where
  "str_contains sep [] = (sep = [])"
| "str_contains sep (c # cs) = (take (length sep) (c # cs) = sep \<or> str_contains sep cs)"

fun split_acc :: "string \<Rightarrow> string \<Rightarrow> string \<Rightarrow> string list" where
  "split_acc sep cur [] = [rev cur]"
| "split_acc sep cur (c # cs) =
     (if sep \<noteq> [] \<and> take (length sep) (c # cs) = sep
      then rev cur # split_acc sep [] (drop (length sep - 1) cs)
      else split_acc sep (c # cur) cs)"

definition str_split :: "string \<Rightarrow> string \<Rightarrow> string list" where
  "str_split sep s = split_acc sep [] s"

text \<open>Indexing a list: \<^verbatim>\<open>IndexError\<close> out of range.\<close>

definition item :: "'a list \<Rightarrow> nat \<Rightarrow> exn + 'a" where
  "item xs n = (if n < length xs then Inr (xs ! n) else Inl IndexError)"

definition schedule_song :: "interaction \<Rightarrow> string \<Rightarrow> string \<Rightarrow> world \<Rightarrow> exn + world" where
  "schedule_song i date_str spotify_url w =
     (case is_allowed i w of
        Inl e \<Rightarrow> Inl e
      | Inr allowed \<Rightarrow>
          if \<not> allowed then Inr (perform (Reply ''Permission denied.'') w)
          else
            (case fromisoformat date_str of
               Inl e \<Rightarrow> Inr (perform (Reply ''Invalid date format (YYYY-MM-DD).'') w)
             | Inr target \<Rightarrow>
                 if \<not> str_contains ''/track/'' spotify_url
                 then Inr (perform (Reply ''Invalid Spotify track URL.'') w)
                 else
                   (case item (str_split ''/track/'' spotify_url) 1 of
                      Inl e \<Rightarrow> Inl e
                    | Inr tail \<Rightarrow>
                        (case item (str_split ''?'' tail) 0 of
                           Inl e \<Rightarrow> Inl e
                         | Inr tid \<Rightarrow>
                             (case load_scheduled_songs w of
                                Inl e \<Rightarrow> Inl e
                              | Inr (scheduled, w1) \<Rightarrow>
                                  Inr (perform (Reply ''Song scheduled.'')
                                        (save_scheduled_songs
                                           (AList.update (isoformat target) tid scheduled)
                                           w1)))))))"

definition setchannel :: "interaction \<Rightarrow> nat \<Rightarrow> string \<Rightarrow> world \<Rightarrow> exn + world" where
  "setchannel i channel_id mention w =
     (case is_allowed i w of
        Inl e \<Rightarrow> Inl e
      | Inr allowed \<Rightarrow>
          if \<not> allowed then Inr (perform (Reply ''Permission denied.'') w)
          else
            (case load_channel_config w of
               Inl e \<Rightarrow> Inl e
             | Inr (config, w1) \<Rightarrow>
                 Inr (perform (Reply (''Song of the Day channel set to '' @ mention))
                       (save_channel_config (AList.update (guild_id i) channel_id config) w1))))"

definition unschedule_song :: "interaction \<Rightarrow> string \<Rightarrow> world \<Rightarrow> exn + world" where
  "unschedule_song i date_str w =
     (case is_allowed i w of
        Inl e \<Rightarrow> Inl e
      | Inr allowed \<Rightarrow>
          if \<not> allowed then Inr (perform (Reply ''Permission denied.'') w)
          else
            (case load_scheduled_songs w of
               Inl e \<Rightarrow> Inl e
             | Inr (scheduled, w1) \<Rightarrow>
                 if map_of scheduled date_str = None
                 then Inr (perform (Reply ''Nothing scheduled for that date.'') w1)
                 else Inr (perform (Reply ''Schedule removed.'')
                            (save_scheduled_songs (AList.delete date_str scheduled) w1))))"

definition clear_schedule :: "interaction \<Rightarrow> world \<Rightarrow> exn + world" where
  "clear_schedule i w =
     (case is_allowed i w of
        Inl e \<Rightarrow> Inl e
      | Inr allowed \<Rightarrow>
          if \<not> allowed then Inr (perform (Reply ''Permission denied.'') w)
          else Inr (perform (Reply ''All scheduled songs cleared.'') (save_scheduled_songs [] w)))"

text \<open>
  The reply of \<^verbatim>\<open>test_sotd\<close> ends with the character U+2026, written here as the three
  bytes of its UTF-8 encoding.
\<close>

definition ellipsis :: string where
  "ellipsis = [char_of (226 :: nat), char_of (128 :: nat), char_of (166 :: nat)]"

definition test_sotd ::
  "interaction \<Rightarrow> track list \<Rightarrow> date \<Rightarrow> nat \<Rightarrow> (nat \<Rightarrow> bool) \<Rightarrow> world \<Rightarrow> exn + world" where
  "test_sotd i tracks today r get_channel w =
     (case is_allowed i w of
        Inl e \<Rightarrow> Inl e
      | Inr allowed \<Rightarrow>
          if \<not> allowed then Inr (perform (Reply ''Permission denied.'') w)
          else
            (case song_of_the_day tracks today r get_channel
                    (perform (Reply (''Forcing Song of the Day'' @ ellipsis)) w) of
               Inl e \<Rightarrow> Inl e
             | Inr (posted, w1) \<Rightarrow> Inr w1))"

subsection \<open>The functions of \<^verbatim>\<open>song_of_day_bot.py\<close> that differ\<close>

text \<open>
  \<^verbatim>\<open>load_used_songs\<close> rewrites a file it cannot parse with the empty list;
  \<^verbatim>\<open>load_channel_config\<close> has no \<^verbatim>\<open>try\<close>, so \<^verbatim>\<open>JSONDecodeError\<close> reaches the caller.
  Neither catches the \<^verbatim>\<open>UnicodeDecodeError\<close> of a file that is not text.
\<close>

definition load_used_songs_bot :: "world \<Rightarrow> exn + (string set \<times> world)" where
  "load_used_songs_bot w =
     (case used_songs_file (disk w) of
        Absent \<Rightarrow> Inr ({}, w)
      | Undecodable \<Rightarrow> Inl UnicodeDecodeError
      | Doc d \<Rightarrow> Inr (d, w)
      | Garbage t \<Rightarrow> Inr ({}, perform (WriteUsedSongs {}) w))"

definition load_channel_config_bot :: "world \<Rightarrow> exn + ((string \<times> nat) list \<times> world)" where
  "load_channel_config_bot w =
     (case channel_config_file (disk w) of
        Absent \<Rightarrow> Inr ([], w)
      | Undecodable \<Rightarrow> Inl UnicodeDecodeError
      | Doc d \<Rightarrow> Inr (d, w)
      | Garbage t \<Rightarrow> Inl JSONDecodeError)"

text \<open>
  \<^verbatim>\<open>song_of_the_day\<close> of \<^verbatim>\<open>song_of_day_bot.py\<close> returns nothing; the value here is the
  song it chose, if it chose one.
\<close>

definition song_of_the_day_bot ::
  "track list \<Rightarrow> date \<Rightarrow> nat \<Rightarrow> (nat \<Rightarrow> bool) \<Rightarrow> world \<Rightarrow> exn + (track option \<times> world)" where
  "song_of_the_day_bot tracks today r get_channel w =
     (case load_channel_config_bot w of
        Inl e \<Rightarrow> Inl e
      | Inr (channel_config, w1) \<Rightarrow>
          if channel_config = [] then Inr (None, w1)
          else
            (case load_used_songs_bot w1 of
               Inl e \<Rightarrow> Inl e
             | Inr (used_songs, w2) \<Rightarrow>
                 if tracks = [] then Inr (None, w2)
                 else
                   (let unused = filter (\<lambda>t. track_id t \<notin> used_songs) tracks;
                        used' = (if unused = [] then {} else used_songs);
                        unused' = (if unused = [] then tracks else unused)
                    in case choice r unused' of
                         Inl e \<Rightarrow> Inl e
                       | Inr song \<Rightarrow>
                           Inr (Some song,
                                dispatch get_channel today song (map snd channel_config)
                                  (save_used_songs (insert (track_id song) used') w2)))))"

definition POST_HOUR_bot :: nat where "POST_HOUR_bot = 10"
definition POST_MINUTE_bot :: nat where "POST_MINUTE_bot = 0"

text \<open>The \<^verbatim>\<open>asyncio.sleep(60)\<close> after a firing only delays the next tick.\<close>

definition scheduler_bot ::
  "track list \<Rightarrow> clock \<Rightarrow> nat \<Rightarrow> (nat \<Rightarrow> bool) \<Rightarrow> world \<Rightarrow> exn + (bool \<times> world)" where
  "scheduler_bot tracks now r get_channel w =
     (case load_last_run w of
        Inl e \<Rightarrow> Inl e
      | Inr (last_run, w1) \<Rightarrow>
          if now_hour now = POST_HOUR_bot \<and> now_minute now = POST_MINUTE_bot
             \<and> last_run \<noteq> Some (now_date now)
          then
            (case song_of_the_day_bot tracks (now_date now) r get_channel w1 of
               Inl e \<Rightarrow> Inl e
             | Inr (song, w2) \<Rightarrow> Inr (True, save_last_run (now_date now) w2))
          else Inr (False, w1))"

text \<open>
  \<^verbatim>\<open>testsong\<close>: the permission check is a decorator of the command framework, so the
  body runs only for an administrator.
\<close>

definition testsong ::
  "track list \<Rightarrow> date \<Rightarrow> nat \<Rightarrow> (nat \<Rightarrow> bool) \<Rightarrow> world \<Rightarrow> exn + world" where
  "testsong tracks today r get_channel w =
     (case song_of_the_day_bot tracks today r get_channel
             (perform (Reply ''Posting test Song of the Day...'') w) of
        Inl e \<Rightarrow> Inl e
      | Inr (song, w1) \<Rightarrow> Inr w1)"

subsection \<open>Notions used to state the properties\<close>

text \<open>A key of the override map is due when it is the ISO text of a date not after today.\<close>

definition is_due :: "date \<Rightarrow> string \<Rightarrow> bool" where
  "is_due today k = (case fromisoformat k of Inl e \<Rightarrow> False | Inr d \<Rightarrow> d \<le> today)"

definition is_iso :: "string \<Rightarrow> bool" where
  "is_iso k = (case fromisoformat k of Inl e \<Rightarrow> False | Inr d \<Rightarrow> True)"

text \<open>The date a key stands for (meaningful for ISO keys only).\<close>

definition date_of :: "string \<Rightarrow> date" where
  "date_of k = (case fromisoformat k of Inl e \<Rightarrow> (0, 0, 0) | Inr d \<Rightarrow> d)"

text \<open>
  A state file can be loaded when it is absent or holds text. Every write of the
  program leaves such a file: \<^verbatim>\<open>json.dump\<close> and \<^verbatim>\<open>date.isoformat\<close> produce ASCII.
\<close>

definition decodable :: "'a jfile \<Rightarrow> bool" where
  "decodable f \<longleftrightarrow> f \<noteq> Undecodable"

text \<open>
  The tables as the loaders of \<^verbatim>\<open>song_of_day_test.py\<close> read them (empty where the
  loader raises).
\<close>

definition used_set :: "world \<Rightarrow> string set" where
  "used_set w = (case load_used_songs w of Inl e \<Rightarrow> {} | Inr (used, w1) \<Rightarrow> used)"

definition override_map :: "world \<Rightarrow> (string \<times> string) list" where
  "override_map w =
     (case load_scheduled_songs w of Inl e \<Rightarrow> [] | Inr (scheduled, w1) \<Rightarrow> scheduled)"

definition registry :: "world \<Rightarrow> (string \<times> nat) list" where
  "registry w =
     (case load_channel_config w of Inl e \<Rightarrow> [] | Inr (channel_config, w1) \<Rightarrow> channel_config)"

text \<open>A run of consecutive selections, each with the day and the random draw it meets.\<close>

fun pick_songs ::
  "track list \<Rightarrow> (date \<times> nat) list \<Rightarrow> world \<Rightarrow> exn + (track option list \<times> world)" where
  "pick_songs tracks [] w = Inr ([], w)"
| "pick_songs tracks ((today, r) # rest) w =
     (case pick_song tracks today r w of
        Inl e \<Rightarrow> Inl e
      | Inr (song, w1) \<Rightarrow>
          (case pick_songs tracks rest w1 of
             Inl e \<Rightarrow> Inl e
           | Inr (songs, w2) \<Rightarrow> Inr (song # songs, w2)))"

text \<open>Announcements among the effects.\<close>

fun is_send :: "effect \<Rightarrow> bool" where
  "is_send (Send c d t) = True"
| "is_send e = False"

text \<open>The effects a run added to the journal, and the files as they are on disk when
  only the first \<open>n\<close> of them have happened.\<close>

definition effects_of :: "world \<Rightarrow> world \<Rightarrow> effect list" where
  "effects_of w w' = drop (length (journal w)) (journal w')"

definition disk_after :: "nat \<Rightarrow> world \<Rightarrow> world \<Rightarrow> files" where
  "disk_after n w w' = fold apply_effect (take n (effects_of w w')) (disk w)"

definition in_window :: "clock \<Rightarrow> bool" where
  "in_window now \<longleftrightarrow>
     now_hour now = POST_HOUR \<and> now_minute now = POST_MINUTE \<and> now_second now < 10"

definition set_last_run_file :: "tfile \<Rightarrow> world \<Rightarrow> world" where
  "set_last_run_file t w = w\<lparr>disk := (disk w)\<lparr>last_run_file := t\<rparr>\<rparr>"

text \<open>
  The text after the first occurrence of a separator, and the text before it (all of
  the string when there is none).
\<close>

fun after_first :: "string \<Rightarrow> string \<Rightarrow> string" where
  "after_first sep [] = []"
| "after_first sep (c # cs) =
     (if take (length sep) (c # cs) = sep then drop (length sep) (c # cs)
      else after_first sep cs)"

fun before_first :: "string \<Rightarrow> string \<Rightarrow> string" where
  "before_first sep [] = []"
| "before_first sep (c # cs) =
     (if take (length sep) (c # cs) = sep then [] else c # before_first sep cs)"

text \<open>
  The track id as claim C10 first words it: the text between the first \<^verbatim>\<open>/track/\<close> and
  the next \<^verbatim>\<open>?\<close>.
\<close>

definition id_between_track_and_query :: "string \<Rightarrow> string" where
  "id_between_track_and_query u = before_first ''?'' (after_first ''/track/'' u)"

subsection \<open>Concrete inputs for the worked instances\<close>

abbreviation track_a :: track where
  "track_a \<equiv> \<lparr>track_id = ''a'', name = ''A'', artists = [''x''], artwork = ''art'', url = ''u''\<rparr>"

abbreviation track_b :: track where
  "track_b \<equiv> \<lparr>track_id = ''b'', name = ''B'', artists = [''y''], artwork = ''art'', url = ''v''\<rparr>"

abbreviation track_a2 :: track where
  "track_a2 \<equiv> \<lparr>track_id = ''a'', name = ''A2'', artists = [''x''], artwork = ''art'', url = ''u''\<rparr>"

text \<open>A world with the given used-set, registry, override map and last-run text, no
  allow-list file and an empty journal.\<close>

abbreviation mk_world ::
  "string set jfile \<Rightarrow> (string \<times> nat) list jfile \<Rightarrow> (string \<times> string) list jfile
     \<Rightarrow> tfile \<Rightarrow> world" where
  "mk_world used chans sched lastrun \<equiv>
     \<lparr>disk = \<lparr>used_songs_file = used, channel_config_file = chans,
               scheduled_songs_file = sched, allowed_roles_file = Absent,
               last_run_file = lastrun\<rparr>,
      journal = []\<rparr>"

section \<open>Properties\<close>

subsection \<open>ISO dates: parsing, printing and order\<close>

lemma digit_val_less: "is_digit c \<Longrightarrow> digit_val c < 10"
  by (auto simp: is_digit_def digit_val_def)

lemma digit_char_val: "is_digit c \<Longrightarrow> digit_char (digit_val c) = c"
proof -
  assume "is_digit c"
  then have "48 + (of_char c - 48 :: nat) mod 10 = of_char c"
    by (auto simp: is_digit_def)
  then show ?thesis by (simp add: digit_char_def digit_val_def)
qed



lemma digit_less_iff: "is_digit a \<Longrightarrow> is_digit b \<Longrightarrow> a < b \<longleftrightarrow> digit_val a < digit_val b"
  by (auto simp: less_char_def is_digit_def digit_val_def)

lemma digit_eq_iff: "is_digit a \<Longrightarrow> is_digit b \<Longrightarrow> a = b \<longleftrightarrow> digit_val a = digit_val b"
  by (metis digit_char_val)

lemma digit_char_eqI: "is_digit c \<Longrightarrow> n mod 10 = digit_val c \<Longrightarrow> digit_char n = c"
  using digit_char_val [of c] by (simp add: digit_char_def)

lemma lex10:
  "x1 < 10 \<Longrightarrow> x2 < 10 \<Longrightarrow>
     (10 * h1 + x1 < 10 * h2 + x2) \<longleftrightarrow> (h1 < h2 \<or> h1 = h2 \<and> x1 < (x2::nat))"
  by arith

lemma eq10:
  "x1 < 10 \<Longrightarrow> x2 < 10 \<Longrightarrow> (10 * h1 + x1 = 10 * h2 + x2) \<longleftrightarrow> (h1 = h2 \<and> x1 = (x2::nat))"
  by arith

lemma mod10_low: "k < 10 \<Longrightarrow> (10 * n + k) mod 10 = (k::nat)"
  by simp

lemma div10_low: "k < 10 \<Longrightarrow> (10 * n + k) div 10 = (n::nat)"
  by simp

lemma div100: "(n::nat) div 100 = n div 10 div 10"
  by (simp only: div_mult2_eq [symmetric]) simp

lemma div1000: "(n::nat) div 1000 = n div 10 div 10 div 10"
  by (simp only: div_mult2_eq [symmetric]) simp

lemma horner_digits2:
  fixes a b :: nat
  assumes "a < 10" "b < 10"
  shows "(10 * a + b) div 10 mod 10 = a" and "(10 * a + b) mod 10 = b"
  using assms by (simp_all only: mod10_low div10_low mod_less)

lemma horner_digits4:
  fixes a b c d :: nat
  assumes "a < 10" "b < 10" "c < 10" "d < 10"
  shows "(10 * (10 * (10 * a + b) + c) + d) div 1000 mod 10 = a"
    and "(10 * (10 * (10 * a + b) + c) + d) div 100 mod 10 = b"
    and "(10 * (10 * (10 * a + b) + c) + d) div 10 mod 10 = c"
    and "(10 * (10 * (10 * a + b) + c) + d) mod 10 = d"
  using assms by (simp_all only: div100 div1000 mod10_low div10_low mod_less)



text \<open>What a string that parses looks like.\<close>

lemma fromisoformat_InrE:
  assumes "fromisoformat s = Inr dt"
  obtains y1 y2 y3 y4 m1 m2 d1 d2 where
    "s = [y1, y2, y3, y4, CHR ''-'', m1, m2, CHR ''-'', d1, d2]"
    "is_digit y1" "is_digit y2" "is_digit y3" "is_digit y4"
    "is_digit m1" "is_digit m2" "is_digit d1" "is_digit d2"
    "dt = (10 * (10 * (10 * digit_val y1 + digit_val y2) + digit_val y3) + digit_val y4,
           10 * digit_val m1 + digit_val m2, 10 * digit_val d1 + digit_val d2)"
    "valid_date dt"
  using assms
  by (elim fromisoformat.elims) (auto simp: Let_def valid_date_def split: if_splits)

text \<open>Sorting ISO keys as strings sorts them as dates.\<close>

lemma fromisoformat_less_iff:
  assumes "fromisoformat s = Inr dt" and "fromisoformat s' = Inr dt'"
  shows "s < s' \<longleftrightarrow> dt < dt'"
proof -
  from assms(1) obtain y1 y2 y3 y4 m1 m2 d1 d2 where
    s: "s = [y1, y2, y3, y4, CHR ''-'', m1, m2, CHR ''-'', d1, d2]"
    and dg: "is_digit y1" "is_digit y2" "is_digit y3" "is_digit y4"
      "is_digit m1" "is_digit m2" "is_digit d1" "is_digit d2"
    and dt: "dt = (10 * (10 * (10 * digit_val y1 + digit_val y2) + digit_val y3) + digit_val y4,
           10 * digit_val m1 + digit_val m2, 10 * digit_val d1 + digit_val d2)"
    by (rule fromisoformat_InrE)
  from assms(2) obtain z1 z2 z3 z4 n1 n2 e1 e2 where
    s': "s' = [z1, z2, z3, z4, CHR ''-'', n1, n2, CHR ''-'', e1, e2]"
    and dg': "is_digit z1" "is_digit z2" "is_digit z3" "is_digit z4"
      "is_digit n1" "is_digit n2" "is_digit e1" "is_digit e2"
    and dt': "dt' = (10 * (10 * (10 * digit_val z1 + digit_val z2) + digit_val z3) + digit_val z4,
           10 * digit_val n1 + digit_val n2, 10 * digit_val e1 + digit_val e2)"
    by (rule fromisoformat_InrE)
  note lt = dg dg' dg [THEN digit_val_less] dg' [THEN digit_val_less]
  show ?thesis
    unfolding s s' dt dt'
    by (simp only: Cons_less_Cons not_less_Nil less_prod_simp digit_less_iff digit_eq_iff
          lex10 eq10 lt simp_thms order.order_iff_strict) blast
qed

lemma fromisoformat_isoformat:
  assumes "fromisoformat s = Inr dt"
  shows "isoformat dt = s"
proof -
  from assms obtain y1 y2 y3 y4 m1 m2 d1 d2 where
    s: "s = [y1, y2, y3, y4, CHR ''-'', m1, m2, CHR ''-'', d1, d2]"
    and dg: "is_digit y1" "is_digit y2" "is_digit y3" "is_digit y4"
      "is_digit m1" "is_digit m2" "is_digit d1" "is_digit d2"
    and dt: "dt = (10 * (10 * (10 * digit_val y1 + digit_val y2) + digit_val y3) + digit_val y4,
           10 * digit_val m1 + digit_val m2, 10 * digit_val d1 + digit_val d2)"
    by (rule fromisoformat_InrE)
  note lt = dg [THEN digit_val_less]
  show ?thesis
    unfolding s dt isoformat_def prod.case
    by (intro conjI digit_char_eqI dg horner_digits4 horner_digits2 lt
          iffD2 [OF list.inject] refl)
qed


lemma fromisoformat_inj:
  "fromisoformat s = Inr dt \<Longrightarrow> fromisoformat s' = Inr dt \<Longrightarrow> s = s'"
  by (metis fromisoformat_isoformat)

lemma fromisoformat_le_iff:
  assumes "fromisoformat s = Inr dt" and "fromisoformat s' = Inr dt'"
  shows "s \<le> s' \<longleftrightarrow> dt \<le> dt'"
proof -
  have "s = s' \<longleftrightarrow> dt = dt'"
  proof
    assume "s = s'"
    with assms show "dt = dt'" by simp
  next
    assume "dt = dt'"
    with assms show "s = s'" by (blast intro: fromisoformat_inj)
  qed
  then show ?thesis
    using fromisoformat_less_iff [OF assms] by (auto simp: order.order_iff_strict)
qed

subsection \<open>Lists, dictionaries and the catalog\<close>

lemma due_dates_iso:
  "list_all is_iso ks \<Longrightarrow> due_dates ks today = Inr (filter (is_due today) ks)"
  by (induction ks) (auto simp: is_iso_def is_due_def split: sum.splits)

lemma due_dates_InrD:
  "due_dates ks today = Inr due \<Longrightarrow> list_all is_iso ks \<and> due = filter (is_due today) ks"
  by (induction ks arbitrary: due) (auto simp: is_iso_def is_due_def split: sum.splits if_splits)

lemma hd_sort_least:
  fixes xs :: "'a::linorder list"
  assumes "xs \<noteq> []"
  shows "hd (sort xs) \<in> set xs" and "\<forall>x \<in> set xs. hd (sort xs) \<le> x"
proof -
  from assms have ne: "sort xs \<noteq> []" by (metis length_0_conv length_sort)
  then obtain y ys where s: "sort xs = y # ys" by (cases "sort xs") auto
  have st: "set xs = set (y # ys)" by (metis s set_sort)
  show "hd (sort xs) \<in> set xs" unfolding st s by simp
  have "sorted (y # ys)" by (metis s sorted_sort)
  then show "\<forall>x \<in> set xs. hd (sort xs) \<le> x"
    unfolding st s by auto
qed

lemma map_of_key: "k \<in> set (map fst xs) \<Longrightarrow> \<exists>v. map_of xs k = Some v"
  by (induction xs) auto

lemma map_of_delete: "map_of (AList.delete k xs) = (map_of xs)(k := None)"
  by (simp add: delete_conv')

lemma lookup_Some: "lookup tracks tid = Some t \<Longrightarrow> t \<in> set tracks \<and> track_id t = tid"
  unfolding lookup_def by (auto dest!: map_of_SomeD)

lemma lookup_None: "lookup tracks tid = None \<longleftrightarrow> tid \<notin> track_id ` set tracks"
  unfolding lookup_def by (auto simp: map_of_eq_None_iff image_image)


subsection \<open>Loading the tables\<close>

lemma load_json_simps [simp]:
  "load_json Absent d = Inr d"
  "load_json Undecodable d = Inl UnicodeDecodeError"
  "load_json (Garbage t) d = Inr d"
  "load_json (Doc x) d = Inr x"
  by (simp_all add: load_json_def)

lemma used_set_simps:
  "used_set w = (case used_songs_file (disk w) of Doc d \<Rightarrow> d | _ \<Rightarrow> {})"
  "override_map w = (case scheduled_songs_file (disk w) of Doc d \<Rightarrow> d | _ \<Rightarrow> [])"
  "registry w = (case channel_config_file (disk w) of Doc d \<Rightarrow> d | _ \<Rightarrow> [])"
  by (simp_all add: used_set_def override_map_def registry_def load_used_songs_def
        load_scheduled_songs_def load_channel_config_def split: jfile.splits)

lemma loaders_decodable:
  "decodable (used_songs_file (disk w)) \<Longrightarrow> load_used_songs w = Inr (used_set w, w)"
  "decodable (scheduled_songs_file (disk w)) \<Longrightarrow> load_scheduled_songs w = Inr (override_map w, w)"
  "decodable (channel_config_file (disk w)) \<Longrightarrow> load_channel_config w = Inr (registry w, w)"
  by (simp_all add: decodable_def used_set_simps load_used_songs_def
        load_scheduled_songs_def load_channel_config_def split: jfile.splits)

lemma loaders_undecodable:
  "\<not> decodable (used_songs_file (disk w)) \<Longrightarrow> load_used_songs w = Inl UnicodeDecodeError"
  "\<not> decodable (scheduled_songs_file (disk w)) \<Longrightarrow> load_scheduled_songs w = Inl UnicodeDecodeError"
  "\<not> decodable (channel_config_file (disk w)) \<Longrightarrow> load_channel_config w = Inl UnicodeDecodeError"
  by (simp_all add: decodable_def load_used_songs_def load_scheduled_songs_def
        load_channel_config_def)

lemma decodable_simps [simp]:
  "decodable Absent" "\<not> decodable Undecodable" "decodable (Garbage t)" "decodable (Doc x)"
  by (simp_all add: decodable_def)

lemma perform_simps [simp]:
  "journal (perform e w) = journal w @ [e]"
  "disk (perform e w) = apply_effect e (disk w)"
  by (simp_all add: perform_def)

lemma override_map_save_scheduled [simp]:
  "override_map (save_scheduled_songs d w) = d"
  "used_set (save_scheduled_songs d w) = used_set w"
  "registry (save_scheduled_songs d w) = registry w"
  "used_songs_file (disk (save_scheduled_songs d w)) = used_songs_file (disk w)"
  "scheduled_songs_file (disk (save_scheduled_songs d w)) = Doc d"
  "journal (save_scheduled_songs d w) = journal w @ [WriteScheduledSongs d]"
  by (simp_all add: used_set_simps save_scheduled_songs_def)

lemma tables_save_used [simp]:
  "override_map (save_used_songs d w) = override_map w"
  "used_set (save_used_songs d w) = d"
  "registry (save_used_songs d w) = registry w"
  "used_songs_file (disk (save_used_songs d w)) = Doc d"
  "scheduled_songs_file (disk (save_used_songs d w)) = scheduled_songs_file (disk w)"
  "journal (save_used_songs d w) = journal w @ [WriteUsedSongs d]"
  by (simp_all add: used_set_simps save_used_songs_def)

subsection \<open>Song selection: the two paths\<close>

lemma pick_song_empty: "pick_song [] today r w = Inr (None, w)"
  by (simp add: pick_song_def)

lemma pick_song_undecodable:
  assumes "tracks \<noteq> []"
    and "\<not> decodable (used_songs_file (disk w)) \<or> \<not> decodable (scheduled_songs_file (disk w))"
  shows "pick_song tracks today r w = Inl UnicodeDecodeError"
proof (cases "decodable (used_songs_file (disk w))")
  case True
  with assms show ?thesis by (simp add: pick_song_def loaders_decodable loaders_undecodable)
next
  case False
  with assms show ?thesis by (simp add: pick_song_def loaders_undecodable)
qed

lemma pick_song_scheduled:
  assumes "tracks \<noteq> []"
    and "decodable (used_songs_file (disk w))"
    and "decodable (scheduled_songs_file (disk w))"
    and "due_dates (map fst (override_map w)) today = Inr due"
    and "due \<noteq> []"
    and "map_of (override_map w) (hd (sort due)) = Some tid"
  shows "pick_song tracks today r w =
     Inr (lookup tracks tid,
          (case lookup tracks tid of
             None \<Rightarrow> save_scheduled_songs (AList.delete (hd (sort due)) (override_map w)) w
           | Some s \<Rightarrow>
               save_used_songs (insert (track_id s) (used_set w))
                 (save_scheduled_songs (AList.delete (hd (sort due)) (override_map w)) w)))"
proof -
  from assms(5) have ne: "sort due \<noteq> []" by (metis length_0_conv length_sort)
  show ?thesis
    using assms(1,2,3,4,6) ne
    by (simp add: pick_song_def pick_scheduled_def loaders_decodable Let_def
          split: option.splits)
qed

lemma pick_song_random:
  assumes "tracks \<noteq> []"
    and "decodable (used_songs_file (disk w))"
    and "decodable (scheduled_songs_file (disk w))"
    and "due_dates (map fst (override_map w)) today = Inr []"
  shows "pick_song tracks today r w =
     (case pick_random tracks r (used_set w) w of
        Inl e \<Rightarrow> Inl e
      | Inr (song, used', w3) \<Rightarrow>
          (case song of
             None \<Rightarrow> Inr (None, w3)
           | Some s \<Rightarrow> Inr (Some s, save_used_songs (insert (track_id s) used') w3)))"
  using assms
  by (simp add: pick_song_def loaders_decodable Let_def)

subsection \<open>The earliest due key\<close>

lemma is_due_iso: "is_due today k \<Longrightarrow> is_iso k"
  by (auto simp: is_due_def is_iso_def split: sum.splits)

lemma is_iso_date_of: "is_iso k \<Longrightarrow> fromisoformat k = Inr (date_of k)"
  by (auto simp: is_iso_def date_of_def split: sum.splits)

lemma iso_le_iff: "is_iso k \<Longrightarrow> is_iso k' \<Longrightarrow> k \<le> k' \<longleftrightarrow> date_of k \<le> date_of k'"
  by (rule fromisoformat_le_iff; rule is_iso_date_of; assumption)

lemma earliest_due_is_chosen:
  assumes "k \<in> set ks" and "is_due today k"
    and "\<forall>k' \<in> set ks. is_due today k' \<longrightarrow> date_of k \<le> date_of k'"
  shows "hd (sort (filter (is_due today) ks)) = k"
proof -
  let ?due = "filter (is_due today) ks"
  from assms(1,2) have kin: "k \<in> set ?due" by simp
  then have ne: "?due \<noteq> []" by (metis empty_iff list.set(1))
  from hd_sort_least [OF ne] have hin: "hd (sort ?due) \<in> set ?due"
    and least: "\<forall>x \<in> set ?due. hd (sort ?due) \<le> x" by blast+
  from least kin have 1: "hd (sort ?due) \<le> k" by blast
  from hin have hdue: "is_due today (hd (sort ?due))" and hks: "hd (sort ?due) \<in> set ks" by auto
  with assms(3) have "date_of k \<le> date_of (hd (sort ?due))" by blast
  then have 2: "k \<le> hd (sort ?due)"
    using iso_le_iff [OF is_due_iso [OF assms(2)] is_due_iso [OF hdue]] by simp
  from 1 2 show ?thesis by simp
qed

lemma chosen_is_earliest_due:
  assumes "filter (is_due today) ks \<noteq> []"
  defines "k \<equiv> hd (sort (filter (is_due today) ks))"
  shows "k \<in> set ks" and "is_due today k"
    and "\<forall>k' \<in> set ks. is_due today k' \<longrightarrow> date_of k \<le> date_of k'"
proof -
  let ?due = "filter (is_due today) ks"
  from hd_sort_least [OF assms(1)] have hin: "k \<in> set ?due"
    and least: "\<forall>x \<in> set ?due. k \<le> x" unfolding k_def by blast+
  from hin show "k \<in> set ks" and d: "is_due today k" by auto
  show "\<forall>k' \<in> set ks. is_due today k' \<longrightarrow> date_of k \<le> date_of k'"
  proof (intro ballI impI)
    fix k' assume "k' \<in> set ks" "is_due today k'"
    then have "k \<le> k'" using least by simp
    then show "date_of k \<le> date_of k'"
      using iso_le_iff [OF is_due_iso [OF d] is_due_iso [OF \<open>is_due today k'\<close>]] by simp
  qed
qed

lemma delete_filter: "AList.delete k xs = filter (\<lambda>e. fst e \<noteq> k) xs"
  by (induction xs) auto

subsection \<open>Selection against an empty catalog\<close>

text \<open>
  Claim C7. Against an empty catalog \<^verbatim>\<open>pick_song\<close> returns no track and leaves the
  whole world as it was: no file is read or written (used-set and override map
  included) and nothing is sent, whatever the files hold. The main action built on it
  reads the registry first and then reports that nothing was posted, again without any
  effect.
\<close>

theorem empty_catalog_noop:
  "pick_song [] today r w = Inr (None, w)
   \<and> song_of_the_day [] today r get_channel w =
       (case load_channel_config w of
          Inl e \<Rightarrow> Inl e
        | Inr (channel_config, w1) \<Rightarrow> Inr (False, w))"
  by (simp add: pick_song_empty song_of_the_day_def load_channel_config_def
      split: sum.splits)

subsection \<open>A due override naming no catalog track\<close>

text \<open>
  Claim C2. Let the catalog be non-empty, the used-set and override files be absent or
  hold text, and the keys of the override map be ISO dates. If \<open>k\<close> is the earliest due
  key and the track id stored under it is the id of no catalog track, then \<^verbatim>\<open>pick_song\<close>
  returns no track, without falling back to the random choice; the entry under \<open>k\<close> is
  removed and every other entry stays; the used-set file is untouched, and the only
  effect is the write of the override map.
\<close>

theorem dangling_override_consumed:
  assumes "tracks \<noteq> []"
    and "decodable (used_songs_file (disk w))"
    and "decodable (scheduled_songs_file (disk w))"
    and "list_all is_iso (map fst (override_map w))"
    and "k \<in> set (map fst (override_map w))" and "is_due today k"
    and "\<forall>k' \<in> set (map fst (override_map w)). is_due today k' \<longrightarrow> date_of k \<le> date_of k'"
    and "map_of (override_map w) k = Some tid"
    and "tid \<notin> track_id ` set tracks"
  shows "\<exists>w'. pick_song tracks today r w = Inr (None, w')
     \<and> override_map w' = filter (\<lambda>e. fst e \<noteq> k) (override_map w)
     \<and> map_of (override_map w') = (map_of (override_map w))(k := None)
     \<and> used_songs_file (disk w') = used_songs_file (disk w)
     \<and> used_set w' = used_set w
     \<and> journal w' = journal w @ [WriteScheduledSongs (override_map w')]"
proof -
  let ?ks = "map fst (override_map w)"
  let ?due = "filter (is_due today) ?ks"
  have dd: "due_dates ?ks today = Inr ?due" by (rule due_dates_iso [OF assms(4)])
  have ne: "?due \<noteq> []" using assms(5,6) by (auto simp: filter_empty_conv)
  have hd: "hd (sort ?due) = k" by (rule earliest_due_is_chosen [OF assms(5,6,7)])
  have lk: "lookup tracks tid = None" using assms(9) by (simp add: lookup_None)
  have "pick_song tracks today r w =
      Inr (None, save_scheduled_songs (AList.delete k (override_map w)) w)"
    using pick_song_scheduled [OF assms(1,2,3) dd ne, of tid r] assms(8) by (simp add: hd lk)
  then show ?thesis
    by (simp add: map_of_delete delete_filter [symmetric])
qed

subsection \<open>A due override is consumed, earliest first\<close>

text \<open>
  Claim C1, amended to non-empty catalogs. Let the catalog be non-empty, the used-set
  and override files be absent or hold text, and the keys of the override map be ISO
  dates, at least one of them due. Then \<^verbatim>\<open>pick_song\<close> consumes the entry with the
  earliest due date: there is a due key \<open>k\<close>, no due key has an earlier date, the result
  is what the catalog holds under the track id stored at \<open>k\<close>, the override map
  afterwards is the old one without the entries of key \<open>k\<close> (later due entries stay),
  and if that id is the id of a catalog track then such a track is returned, whatever
  the used-set, and its id is added to the used-set.
\<close>

theorem due_override_consumed:
  assumes "tracks \<noteq> []"
    and "decodable (used_songs_file (disk w))"
    and "decodable (scheduled_songs_file (disk w))"
    and "list_all is_iso (map fst (override_map w))"
    and "\<exists>k \<in> set (map fst (override_map w)). is_due today k"
  shows "\<exists>k tid w'.
       k \<in> set (map fst (override_map w)) \<and> is_due today k
     \<and> (\<forall>k' \<in> set (map fst (override_map w)). is_due today k' \<longrightarrow> date_of k \<le> date_of k')
     \<and> map_of (override_map w) k = Some tid
     \<and> pick_song tracks today r w = Inr (lookup tracks tid, w')
     \<and> override_map w' = filter (\<lambda>e. fst e \<noteq> k) (override_map w)
     \<and> map_of (override_map w') = (map_of (override_map w))(k := None)
     \<and> (tid \<in> track_id ` set tracks \<longrightarrow>
          (\<exists>t \<in> set tracks. track_id t = tid \<and> lookup tracks tid = Some t
             \<and> used_set w' = insert tid (used_set w)))"
proof -
  let ?ks = "map fst (override_map w)"
  let ?due = "filter (is_due today) ?ks"
  define k where "k = hd (sort ?due)"
  have dd: "due_dates ?ks today = Inr ?due" by (rule due_dates_iso [OF assms(4)])
  have ne: "?due \<noteq> []" using assms(5) by (auto simp: filter_empty_conv)
  note e = chosen_is_earliest_due [OF ne, folded k_def]
  from map_of_key [OF e(1)] obtain tid where tid: "map_of (override_map w) k = Some tid" ..
  define w1 where "w1 = save_scheduled_songs (AList.delete k (override_map w)) w"
  define w' where "w' = (case lookup tracks tid of None \<Rightarrow> w1
             | Some s \<Rightarrow> save_used_songs (insert (track_id s) (used_set w)) w1)"
  have ps: "pick_song tracks today r w = Inr (lookup tracks tid, w')"
    using pick_song_scheduled [OF assms(1,2,3) dd ne, of tid r] tid
    unfolding k_def w'_def w1_def by simp
  have om: "override_map w' = filter (\<lambda>e. fst e \<noteq> k) (override_map w)"
    unfolding w'_def w1_def by (simp add: delete_filter split: option.splits)
  have mo: "map_of (override_map w') = (map_of (override_map w))(k := None)"
    unfolding om delete_filter [symmetric] by (rule map_of_delete)
  have res: "tid \<in> track_id ` set tracks \<longrightarrow>
          (\<exists>t \<in> set tracks. track_id t = tid \<and> lookup tracks tid = Some t
             \<and> used_set w' = insert tid (used_set w))"
  proof
    assume "tid \<in> track_id ` set tracks"
    then obtain t where t: "lookup tracks tid = Some t"
      using lookup_None [of tracks tid] by (cases "lookup tracks tid") auto
    from lookup_Some [OF t] have tt: "t \<in> set tracks" "track_id t = tid" by simp_all
    have "used_set w' = insert tid (used_set w)"
      unfolding w'_def w1_def by (simp add: t tt)
    with t tt show "\<exists>t \<in> set tracks. track_id t = tid \<and> lookup tracks tid = Some t
             \<and> used_set w' = insert tid (used_set w)"
      by blast
  qed
  show ?thesis
    apply (rule exI [of _ k])
    apply (rule exI [of _ tid])
    apply (rule exI [of _ w'])
    apply (intro conjI)
           apply (rule e(1))
          apply (rule e(2))
         apply (rule e(3))
        apply (rule tid)
       apply (rule ps)
      apply (rule om)
     apply (rule mo)
    apply (rule res)
    done
qed

subsection \<open>The random path\<close>

lemma no_due_dates:
  assumes "list_all is_iso ks" and "list_all (\<lambda>k. \<not> is_due today k) ks"
  shows "due_dates ks today = Inr []"
proof -
  have "filter (is_due today) ks = []"
    using assms(2) by (simp add: filter_empty_conv list_all_iff)
  with due_dates_iso [OF assms(1), of today] show ?thesis by simp
qed

lemma pick_song_random_step:
  assumes "tracks \<noteq> []"
    and "decodable (used_songs_file (disk w))"
    and "decodable (scheduled_songs_file (disk w))"
    and "list_all is_iso (map fst (override_map w))"
    and "list_all (\<lambda>k. \<not> is_due today k) (map fst (override_map w))"
  shows "\<exists>song. pick_song tracks today r w =
        Inr (Some song,
             save_used_songs
               (insert (track_id song)
                  (if track_id ` set tracks \<subseteq> used_set w then {} else used_set w)) w)
     \<and> song \<in> set tracks
     \<and> (if track_id ` set tracks \<subseteq> used_set w
         then song = tracks ! (r mod length tracks)
         else track_id song \<notin> used_set w)"
proof -
  let ?U = "used_set w"
  let ?unused = "filter (\<lambda>t. track_id t \<notin> ?U) tracks"
  have nd: "due_dates (map fst (override_map w)) today = Inr []"
    by (rule no_due_dates [OF assms(4,5)])
  note pr = pick_song_random [OF assms(1,2,3) nd]
  show ?thesis
  proof (cases "track_id ` set tracks \<subseteq> ?U")
    case True
    then have e: "?unused = []" by (auto simp: filter_empty_conv)
    have m: "tracks ! (r mod length tracks) \<in> set tracks"
      using assms(1) by simp
    have "pick_random tracks r ?U w = Inr (Some (tracks ! (r mod length tracks)), {}, w)"
      using assms(1) by (simp add: pick_random_def choice_def Let_def e)
    then show ?thesis
      using True m by (simp add: pr)
  next
    case False
    then have ne: "?unused \<noteq> []" by (auto simp: filter_empty_conv)
    let ?s = "?unused ! (r mod length ?unused)"
    have "?s \<in> set ?unused" using ne by (intro nth_mem) simp
    then have m: "?s \<in> set tracks" "track_id ?s \<notin> ?U" by auto
    have "pick_random tracks r ?U w = Inr (Some ?s, ?U, w)"
      using ne by (simp add: pick_random_def choice_def Let_def)
    then show ?thesis
      using False m by (simp add: pr)
  qed
qed

text \<open>
  Claim C3. Let the catalog be non-empty, the used-set and override files be absent or
  hold text, the keys of the override map be ISO dates none of which is due, and the id
  of every catalog track be in the used-set. Then \<^verbatim>\<open>pick_song\<close> returns a track: the one
  the random draw picks in the full catalog. The used-set afterwards has exactly one
  element, the id of that track; the override map is unchanged and the only effect is
  the write of the used-set.
\<close>

theorem wrap_around:
  assumes "tracks \<noteq> []"
    and "decodable (used_songs_file (disk w))"
    and "decodable (scheduled_songs_file (disk w))"
    and "list_all is_iso (map fst (override_map w))"
    and "list_all (\<lambda>k. \<not> is_due today k) (map fst (override_map w))"
    and "track_id ` set tracks \<subseteq> used_set w"
  shows "\<exists>song w'. pick_song tracks today r w = Inr (Some song, w')
     \<and> song = tracks ! (r mod length tracks) \<and> song \<in> set tracks
     \<and> used_set w' = {track_id song}
     \<and> override_map w' = override_map w
     \<and> journal w' = journal w @ [WriteUsedSongs {track_id song}]"
proof -
  from pick_song_random_step [OF assms(1,2,3,4,5), of r] assms(6)
  obtain song where
    "pick_song tracks today r w = Inr (Some song, save_used_songs {track_id song} w)"
    "song \<in> set tracks" "song = tracks ! (r mod length tracks)"
    by auto
  then show ?thesis by simp
qed

subsection \<open>No repeat before the catalog is exhausted\<close>

lemma pick_songs_no_repeat:
  assumes "decodable (used_songs_file (disk w))"
    and "decodable (scheduled_songs_file (disk w))"
    and "list_all is_iso (map fst (override_map w))"
    and "list_all (\<lambda>d. list_all (\<lambda>k. \<not> is_due (fst d) k) (map fst (override_map w))) days"
    and "used_set w \<subseteq> track_id ` set tracks"
    and "card (used_set w) + length days \<le> card (track_id ` set tracks)"
  shows "\<exists>songs w'. pick_songs tracks days w = Inr (map Some songs, w')
     \<and> length songs = length days
     \<and> distinct (map track_id songs)
     \<and> set songs \<subseteq> set tracks
     \<and> track_id ` set songs \<inter> used_set w = {}
     \<and> used_set w' = used_set w \<union> track_id ` set songs
     \<and> override_map w' = override_map w"
  using assms
proof (induction days arbitrary: w)
  case Nil
  show ?case by (intro exI [of _ "[]"] exI [of _ w]) simp
next
  case (Cons d rest)
  obtain today r where d: "d = (today, r)" by (cases d)
  let ?ids = "track_id ` set tracks"
  let ?U = "used_set w"
  have fin: "finite ?ids" by simp
  from Cons.prems(6) have lt: "card ?U < card ?ids" by simp
  then have ne: "tracks \<noteq> []" by auto
  have nsub: "\<not> ?ids \<subseteq> ?U"
  proof
    assume "?ids \<subseteq> ?U"
    with Cons.prems(5) have "?U = ?ids" by auto
    with lt show False by simp
  qed
  from Cons.prems(4) have nd: "list_all (\<lambda>k. \<not> is_due today k) (map fst (override_map w))"
    and ndr: "list_all (\<lambda>d. list_all (\<lambda>k. \<not> is_due (fst d) k) (map fst (override_map w))) rest"
    by (simp_all add: d)
  from pick_song_random_step [OF ne Cons.prems(1,2,3) nd, of r] nsub
  obtain song where ps: "pick_song tracks today r w =
        Inr (Some song, save_used_songs (insert (track_id song) ?U) w)"
    and sin: "song \<in> set tracks" and fresh: "track_id song \<notin> ?U"
    by auto
  let ?w1 = "save_used_songs (insert (track_id song) ?U) w"
  have u1: "used_set ?w1 = insert (track_id song) ?U" and o1: "override_map ?w1 = override_map w"
    by simp_all
  have du1: "decodable (used_songs_file (disk ?w1))" by simp
  have ds1: "decodable (scheduled_songs_file (disk ?w1))" using Cons.prems(2) by simp
  have finU: "finite ?U" using Cons.prems(5) fin by (rule finite_subset)
  have c1: "card (used_set ?w1) + length rest \<le> card ?ids"
    using Cons.prems(6) fresh finU by (simp add: u1)
  have s1: "used_set ?w1 \<subseteq> ?ids" using Cons.prems(5) sin by (auto simp: u1)
  from Cons.IH [of ?w1, OF du1 ds1] Cons.prems(3) ndr s1 c1
  obtain songs w' where r: "pick_songs tracks rest ?w1 = Inr (map Some songs, w')"
    and len: "length songs = length rest"
    and dis: "distinct (map track_id songs)"
    and sub: "set songs \<subseteq> set tracks"
    and dj: "track_id ` set songs \<inter> used_set ?w1 = {}"
    and us: "used_set w' = used_set ?w1 \<union> track_id ` set songs"
    and om: "override_map w' = override_map ?w1"
    unfolding o1 by blast
  have run: "pick_songs tracks (d # rest) w = Inr (map Some (song # songs), w')"
    by (simp add: d ps r)
  have nin: "track_id song \<notin> track_id ` set songs" using dj by (auto simp: u1)
  have "length (song # songs) = length (d # rest)" by (simp add: len)
  moreover have "distinct (map track_id (song # songs))" using dis nin by simp
  moreover have "set (song # songs) \<subseteq> set tracks" using sub sin by simp
  moreover have "track_id ` set (song # songs) \<inter> ?U = {}" using dj fresh by (auto simp: u1)
  moreover have "used_set w' = ?U \<union> track_id ` set (song # songs)" by (auto simp: us u1)
  moreover have "override_map w' = override_map w" by (simp add: om)
  ultimately show ?case using run by blast
qed

lemma card_ids_distinct:
  "distinct (map track_id tracks) \<Longrightarrow> card (track_id ` set tracks) = length tracks"
  using distinct_card [of "map track_id tracks"] by simp

text \<open>
  The bound in its general form: from an empty used-set, as many selections as the
  catalog has distinct track ids return pairwise distinct ids.
\<close>

lemma pick_songs_distinct_ids:
  assumes "decodable (used_songs_file (disk w))"
    and "decodable (scheduled_songs_file (disk w))"
    and "list_all is_iso (map fst (override_map w))"
    and "list_all (\<lambda>d. list_all (\<lambda>k. \<not> is_due (fst d) k) (map fst (override_map w))) days"
    and "used_set w = {}"
    and "length days \<le> card (track_id ` set tracks)"
  shows "\<exists>songs w'. pick_songs tracks days w = Inr (map Some songs, w')
     \<and> length songs = length days
     \<and> distinct (map track_id songs)
     \<and> set songs \<subseteq> set tracks
     \<and> used_set w' = track_id ` set songs"
proof -
  have "used_set w \<subseteq> track_id ` set tracks"
    and "card (used_set w) + length days \<le> card (track_id ` set tracks)"
    using assms(5,6) by simp_all
  from pick_songs_no_repeat [OF assms(1,2,3,4) this]
  show ?thesis unfolding assms(5) by (simp only: Un_empty_left) blast
qed

text \<open>
  Claim C4. Take a catalog in which every track has its own id (the identifier of a
  track is unique within a catalog, section 3 of the specification), the used-set and
  override files absent or holding text, the keys of the override map ISO dates none of
  which is due on any day of the run, and the used-set empty at the start. If the number
  of selections is at most the size of the catalog, then every selection returns a
  catalog track, the ids chosen are pairwise distinct, and the used-set at the end is
  the set of the ids chosen.
\<close>

theorem no_repeat:
  assumes "distinct (map track_id tracks)"
    and "decodable (used_songs_file (disk w))"
    and "decodable (scheduled_songs_file (disk w))"
    and "list_all is_iso (map fst (override_map w))"
    and "list_all (\<lambda>d. list_all (\<lambda>k. \<not> is_due (fst d) k) (map fst (override_map w))) days"
    and "used_set w = {}"
    and "length days \<le> length tracks"
  shows "\<exists>songs w'. pick_songs tracks days w = Inr (map Some songs, w')
     \<and> length songs = length days
     \<and> distinct (map track_id songs)
     \<and> set songs \<subseteq> set tracks
     \<and> used_set w' = track_id ` set songs"
proof -
  from assms(7) have "length days \<le> card (track_id ` set tracks)"
    by (simp only: card_ids_distinct [OF assms(1)])
  then show ?thesis by (rule pick_songs_distinct_ids [OF assms(2,3,4,5,6)])
qed

subsection \<open>Selection and the main action always return\<close>




lemma last_run_save [simp]:
  "last_run_file (disk (save_last_run d w)) = Text (isoformat d)"
  "last_run_file (disk (save_used_songs u w)) = last_run_file (disk w)"
  "last_run_file (disk (save_scheduled_songs s w)) = last_run_file (disk w)"
  "override_map (save_last_run d w) = override_map w"
  by (simp_all add: save_last_run_def save_used_songs_def save_scheduled_songs_def
        used_set_simps)

lemma is_iso_delete:
  "list_all is_iso (map fst xs) \<Longrightarrow> list_all is_iso (map fst (AList.delete k xs))"
  by (induction xs) auto

lemma save_frames [simp]:
  "channel_config_file (disk (save_used_songs u w)) = channel_config_file (disk w)"
  "channel_config_file (disk (save_scheduled_songs s w)) = channel_config_file (disk w)"
  by (simp_all add: save_used_songs_def save_scheduled_songs_def)


lemma dispatch_disk [simp]: "disk (dispatch gc today song cs w) = disk w"
  by (induction cs arbitrary: w) simp_all



subsection \<open>The daily trigger fires once per day\<close>







subsection \<open>Loading absent and unparseable state files\<close>


text \<open>
  What the loaders do not tolerate: a JSON file that is not text, and a
  \<^verbatim>\<open>last_run.txt\<close> that is not text or does not hold an ISO date.
\<close>

lemma fromisoformat_ValueError: "fromisoformat s = Inl e \<Longrightarrow> e = ValueError"
  by (elim fromisoformat.elims) (auto simp: Let_def split: if_splits)

lemma loaders_raise:
  "used_songs_file (disk w) = Undecodable \<Longrightarrow> load_used_songs w = Inl UnicodeDecodeError"
  "channel_config_file (disk w) = Undecodable \<Longrightarrow> load_channel_config w = Inl UnicodeDecodeError"
  "scheduled_songs_file (disk w) = Undecodable \<Longrightarrow> load_scheduled_songs w = Inl UnicodeDecodeError"
  "allowed_roles_file (disk w) = Undecodable \<Longrightarrow> load_allowed_roles w = Inl UnicodeDecodeError"
  "last_run_file (disk w) = Binary \<Longrightarrow> load_last_run w = Inl UnicodeDecodeError"
  "last_run_file (disk w) = Text t \<Longrightarrow> \<not> is_iso (strip t) \<Longrightarrow> load_last_run w = Inl ValueError"
  by (auto simp: load_used_songs_def load_channel_config_def load_scheduled_songs_def
        load_allowed_roles_def load_last_run_def is_iso_def
      split: sum.splits dest: fromisoformat_ValueError)

text \<open>
  In \<^verbatim>\<open>song_of_day_bot.py\<close> the loader of the used-set does rewrite a file it cannot
  parse, and the loader of the registry lets the parse error through.
\<close>

lemma load_used_songs_bot_resets:
  "used_songs_file (disk w) = Garbage t \<Longrightarrow>
     load_used_songs_bot w = Inr ({}, perform (WriteUsedSongs {}) w)
     \<and> load_used_songs_bot (perform (WriteUsedSongs {}) w) = Inr ({}, perform (WriteUsedSongs {}) w)"
  by (simp add: load_used_songs_bot_def)

lemma load_channel_config_bot_raises:
  "channel_config_file (disk w) = Garbage t \<Longrightarrow> load_channel_config_bot w = Inl JSONDecodeError"
  by (simp add: load_channel_config_bot_def)

subsection \<open>State is written before anything is sent\<close>

text \<open>
  A selection that returns has read both files and found only ISO dates among the keys
  of the override map.
\<close>

lemma due_dates_bad_key:
  "\<not> list_all is_iso ks \<Longrightarrow> due_dates ks today = Inl ValueError"
proof (induction ks)
  case Nil
  then show ?case by simp
next
  case (Cons k ks)
  show ?case
  proof (cases "fromisoformat k")
    case (Inl e)
    with fromisoformat_ValueError [OF Inl] show ?thesis by simp
  next
    case (Inr d)
    then have "is_iso k" by (simp add: is_iso_def)
    with Cons.prems have "\<not> list_all is_iso ks" by simp
    with Cons.IH Inr show ?thesis by simp
  qed
qed

lemma pick_song_bad_key:
  assumes "tracks \<noteq> []"
    and "decodable (used_songs_file (disk w))"
    and "decodable (scheduled_songs_file (disk w))"
    and "\<not> list_all is_iso (map fst (override_map w))"
  shows "pick_song tracks today r w = Inl ValueError"
  using assms(1,2,3) due_dates_bad_key [OF assms(4), of today]
  by (simp add: pick_song_def loaders_decodable)

lemma pick_song_InrD:
  assumes "pick_song tracks today r w = Inr x" and "tracks \<noteq> []"
  shows "decodable (used_songs_file (disk w))"
    and "decodable (scheduled_songs_file (disk w))"
    and "list_all is_iso (map fst (override_map w))"
proof -
  show du: "decodable (used_songs_file (disk w))"
    using pick_song_undecodable [OF assms(2), of w today r] assms(1) by auto
  show ds: "decodable (scheduled_songs_file (disk w))"
    using pick_song_undecodable [OF assms(2), of w today r] assms(1) by auto
  show "list_all is_iso (map fst (override_map w))"
    using pick_song_bad_key [OF assms(2) du ds, of today r] assms(1) by auto
qed

lemma pick_song_Some:
  assumes "pick_song tracks today r w = Inr (Some song, w2)"
  shows "song \<in> set tracks"
    and "filter (is_due today) (map fst (override_map w)) \<noteq> [] \<Longrightarrow>
           map_of (override_map w) (hd (sort (filter (is_due today) (map fst (override_map w)))))
             = Some (track_id song)
         \<and> w2 = save_used_songs (insert (track_id song) (used_set w))
                  (save_scheduled_songs
                     (AList.delete (hd (sort (filter (is_due today) (map fst (override_map w)))))
                        (override_map w)) w)"
    and "filter (is_due today) (map fst (override_map w)) = [] \<Longrightarrow>
           w2 = save_used_songs
                  (insert (track_id song)
                     (if track_id ` set tracks \<subseteq> used_set w then {} else used_set w)) w"
proof -
  have ne: "tracks \<noteq> []" using assms by (auto simp: pick_song_empty)
  note d = pick_song_InrD [OF assms ne]
  let ?ks = "map fst (override_map w)"
  let ?due = "filter (is_due today) ?ks"
  have dd: "due_dates ?ks today = Inr ?due" by (rule due_dates_iso [OF d(3)])
  have sched: "?due \<noteq> [] \<Longrightarrow>
      song \<in> set tracks
      \<and> map_of (override_map w) (hd (sort ?due)) = Some (track_id song)
      \<and> w2 = save_used_songs (insert (track_id song) (used_set w))
                  (save_scheduled_songs (AList.delete (hd (sort ?due)) (override_map w)) w)"
  proof -
    assume due: "?due \<noteq> []"
    from map_of_key [OF chosen_is_earliest_due(1) [OF due]]
    obtain tid where tid: "map_of (override_map w) (hd (sort ?due)) = Some tid" ..
    from pick_song_scheduled [OF ne d(1,2) dd due tid, of r] assms
    have lk: "lookup tracks tid = Some song"
      and w2: "w2 = save_used_songs (insert (track_id song) (used_set w))
                  (save_scheduled_songs (AList.delete (hd (sort ?due)) (override_map w)) w)"
      by (auto split: option.splits)
    from lookup_Some [OF lk] tid w2 show ?thesis by simp
  qed
  have rand: "?due = [] \<Longrightarrow>
      song \<in> set tracks
      \<and> w2 = save_used_songs
                  (insert (track_id song)
                     (if track_id ` set tracks \<subseteq> used_set w then {} else used_set w)) w"
  proof -
    assume "?due = []"
    then have "list_all (\<lambda>k. \<not> is_due today k) ?ks"
      by (simp add: filter_empty_conv list_all_iff)
    from pick_song_random_step [OF ne d(1,2,3) this, of r] assms
    show ?thesis by auto
  qed
  from sched rand show "song \<in> set tracks" by blast
  from sched show "?due \<noteq> [] \<Longrightarrow>
           map_of (override_map w) (hd (sort ?due)) = Some (track_id song)
         \<and> w2 = save_used_songs (insert (track_id song) (used_set w))
                  (save_scheduled_songs (AList.delete (hd (sort ?due)) (override_map w)) w)"
    by blast
  from rand show "?due = [] \<Longrightarrow>
           w2 = save_used_songs
                  (insert (track_id song)
                     (if track_id ` set tracks \<subseteq> used_set w then {} else used_set w)) w"
    by blast
qed

lemma dispatch_journal:
  "journal (dispatch gc today song cs w)
     = journal w @ map (\<lambda>c. Send c today song) (filter gc cs)"
  by (induction cs arbitrary: w) simp_all

lemma fold_sends: "list_all is_send es \<Longrightarrow> fold apply_effect es fs = fs"
proof (induction es)
  case Nil
  show ?case by simp
next
  case (Cons e es)
  then show ?case by (cases e) simp_all
qed

lemma list_all_take: "list_all P xs \<Longrightarrow> list_all P (take n xs)"
  by (auto simp: list_all_iff dest: in_set_takeD)

lemma song_of_the_day_posted:
  assumes "song_of_the_day tracks today r gc w = Inr (True, w')"
  shows "\<exists>song w2. pick_song tracks today r w = Inr (Some song, w2)
     \<and> w' = dispatch gc today song (map snd (registry w)) w2"
proof -
  have dc: "decodable (channel_config_file (disk w))"
  proof (rule ccontr)
    assume "\<not> decodable (channel_config_file (disk w))"
    from loaders_undecodable(3) [OF this] assms show False
      by (simp add: song_of_the_day_def)
  qed
  note lc = loaders_decodable(3) [OF dc]
  from assms show ?thesis
    by (auto simp: song_of_the_day_def lc split: if_splits sum.splits option.splits)
qed

lemma disk_after_writes:
  assumes "journal w' = journal w @ writes @ sends" and "list_all is_send sends"
    and "fold apply_effect writes (disk w) = disk w'"
  shows "\<forall>n \<ge> length writes. disk_after n w w' = disk w'"
proof (intro allI impI)
  fix n assume n: "length writes \<le> n"
  have "take n (writes @ sends) = writes @ take (n - length writes) sends"
    using n by simp
  moreover have "fold apply_effect (take (n - length writes) sends) (disk w') = disk w'"
    by (rule fold_sends [OF list_all_take [OF assms(2)]])
  ultimately show "disk_after n w w' = disk w'"
    by (simp add: disk_after_def effects_of_def assms(1,3))
qed

text \<open>
  Claim C8. When \<^verbatim>\<open>song_of_the_day\<close> posts a track, the effects it adds to the journal
  are first the writes of the selection and then the announcements, one to each
  registered channel that resolves. The writes are all the mutations of the selection.
  On the override path: the override map without the consumed entry (the one of the
  earliest due key, whose track id is the id of the track announced), and the used-set
  with the id of the track added. On the random path: the used-set alone, restarted
  when every catalog id was in it, with the id of the track added; the override map is
  not changed. The files are in their final state once the writes are done: cut the run
  after any number of effects that includes the writes (an interruption during
  dispatch) and the disk is the final disk, which holds that override map and that
  used-set.
\<close>

theorem state_persisted_before_dispatch:
  assumes "song_of_the_day tracks today r gc w = Inr (True, w')"
  shows "\<exists>song writes sends.
       journal w' = journal w @ writes @ sends
     \<and> sends = map (\<lambda>c. Send c today song) (filter gc (map snd (registry w)))
     \<and> song \<in> set tracks
     \<and> (if \<exists>k \<in> set (map fst (override_map w)). is_due today k
         then \<exists>k. k \<in> set (map fst (override_map w)) \<and> is_due today k
                \<and> (\<forall>k' \<in> set (map fst (override_map w)).
                      is_due today k' \<longrightarrow> date_of k \<le> date_of k')
                \<and> map_of (override_map w) k = Some (track_id song)
                \<and> override_map w' = filter (\<lambda>e. fst e \<noteq> k) (override_map w)
                \<and> used_set w' = insert (track_id song) (used_set w)
         else override_map w' = override_map w
              \<and> used_set w' =
                  insert (track_id song)
                    (if track_id ` set tracks \<subseteq> used_set w then {} else used_set w))
     \<and> writes =
         (if \<exists>k \<in> set (map fst (override_map w)). is_due today k
          then [WriteScheduledSongs (override_map w'), WriteUsedSongs (used_set w')]
          else [WriteUsedSongs (used_set w')])
     \<and> fold apply_effect writes (disk w) = disk w'
     \<and> (\<forall>n \<ge> length writes. disk_after n w w' = disk w')"
proof -
  let ?ks = "map fst (override_map w)"
  let ?due = "filter (is_due today) ?ks"
  let ?k = "hd (sort ?due)"
  from song_of_the_day_posted [OF assms] obtain song w2 where
    ps: "pick_song tracks today r w = Inr (Some song, w2)"
    and w': "w' = dispatch gc today song (map snd (registry w)) w2" by blast
  let ?sends = "map (\<lambda>c. Send c today song) (filter gc (map snd (registry w)))"
  have snd_all: "list_all is_send ?sends" by (simp add: list_all_iff)
  have dw: "disk w' = disk w2" by (simp add: w')
  have jw: "journal w' = journal w2 @ ?sends" by (simp add: w' dispatch_journal)
  have um: "used_set w' = used_set w2" "override_map w' = override_map w2"
    using dw by (simp_all add: used_set_simps)
  note s = pick_song_Some [OF ps]
  have due_iff: "(\<exists>k \<in> set ?ks. is_due today k) \<longleftrightarrow> ?due \<noteq> []"
    by (auto simp: filter_empty_conv)
  show ?thesis
  proof (cases "?due = []")
    case True
    let ?U = "insert (track_id song)
                (if track_id ` set tracks \<subseteq> used_set w then {} else used_set w)"
    from s(3) [OF True] have w2: "w2 = save_used_songs ?U w" .
    have u: "used_set w' = ?U" and o: "override_map w' = override_map w"
      unfolding um w2 by simp_all
    have j: "journal w' = journal w @ [WriteUsedSongs (used_set w')] @ ?sends"
      unfolding u unfolding jw w2 by simp
    have f: "fold apply_effect [WriteUsedSongs (used_set w')] (disk w) = disk w'"
      unfolding u unfolding dw w2 by (simp add: save_used_songs_def)
    note after = disk_after_writes [OF j snd_all f]
    show ?thesis
      apply (rule exI [of _ song], rule exI [of _ "[WriteUsedSongs (used_set w')]"],
          rule exI [of _ ?sends])
      apply (simp only: due_iff True if_False simp_thms)
      apply (intro conjI)
           apply (rule j)
          apply (rule s(1))
         apply (rule o)
        apply (rule u)
       apply (rule f)
      apply (rule after)
      done
  next
    case False
    from s(2) [OF False] have tid: "map_of (override_map w) ?k = Some (track_id song)"
      and w2: "w2 = save_used_songs (insert (track_id song) (used_set w))
                  (save_scheduled_songs (AList.delete ?k (override_map w)) w)" by blast+
    note e = chosen_is_earliest_due [OF False]
    have u: "used_set w' = insert (track_id song) (used_set w)"
      and o: "override_map w' = filter (\<lambda>e. fst e \<noteq> ?k) (override_map w)"
      unfolding um w2 by (simp_all add: delete_filter)
    let ?writes = "[WriteScheduledSongs (override_map w'), WriteUsedSongs (used_set w')]"
    have j: "journal w' = journal w @ ?writes @ ?sends"
      unfolding u o unfolding jw w2 by (simp add: delete_filter)
    have f: "fold apply_effect ?writes (disk w) = disk w'"
      unfolding u o unfolding dw w2
      by (simp add: save_used_songs_def save_scheduled_songs_def delete_filter)
    note after = disk_after_writes [OF j snd_all f]
    have br: "\<exists>k. k \<in> set ?ks \<and> is_due today k
                \<and> (\<forall>k' \<in> set ?ks. is_due today k' \<longrightarrow> date_of k \<le> date_of k')
                \<and> map_of (override_map w) k = Some (track_id song)
                \<and> override_map w' = filter (\<lambda>e. fst e \<noteq> k) (override_map w)
                \<and> used_set w' = insert (track_id song) (used_set w)"
      apply (rule exI [of _ ?k])
      apply (intro conjI)
           apply (rule e(1))
          apply (rule e(2))
         apply (rule e(3))
        apply (rule tid)
       apply (rule o)
      apply (rule u)
      done
    show ?thesis
      apply (rule exI [of _ song], rule exI [of _ ?writes], rule exI [of _ ?sends])
      apply (simp only: due_iff False if_True simp_thms)
      apply (intro conjI)
          apply (rule j)
         apply (rule s(1))
        apply (rule br)
       apply (rule f)
      apply (rule after)
      done
  qed
qed

subsection \<open>The manual trigger and the last-fired date\<close>

lemma set_last_run_fields [simp]:
  "used_songs_file (disk (set_last_run_file t w)) = used_songs_file (disk w)"
  "channel_config_file (disk (set_last_run_file t w)) = channel_config_file (disk w)"
  "scheduled_songs_file (disk (set_last_run_file t w)) = scheduled_songs_file (disk w)"
  "allowed_roles_file (disk (set_last_run_file t w)) = allowed_roles_file (disk w)"
  "last_run_file (disk (set_last_run_file t w)) = t"
  "journal (set_last_run_file t w) = journal w"
  by (simp_all add: set_last_run_file_def)

lemma set_last_run_commute [simp]:
  "save_used_songs u (set_last_run_file t w) = set_last_run_file t (save_used_songs u w)"
  "save_scheduled_songs s (set_last_run_file t w) = set_last_run_file t (save_scheduled_songs s w)"
  "perform (Reply m) (set_last_run_file t w) = set_last_run_file t (perform (Reply m) w)"
  "perform (Send c d x) (set_last_run_file t w) = set_last_run_file t (perform (Send c d x) w)"
  by (simp_all add: set_last_run_file_def save_used_songs_def save_scheduled_songs_def perform_def)

lemma dispatch_set_last_run [simp]:
  "dispatch gc today song cs (set_last_run_file t w)
     = set_last_run_file t (dispatch gc today song cs w)"
  by (induction cs arbitrary: w) simp_all

lemma pick_song_set_last_run:
  "pick_song tracks today r (set_last_run_file t w)
     = map_sum id (map_prod id (set_last_run_file t)) (pick_song tracks today r w)"
  by (simp add: pick_song_def pick_scheduled_def pick_random_def load_used_songs_def
        load_scheduled_songs_def Let_def
      split: sum.splits option.splits)

lemma song_of_the_day_set_last_run:
  "song_of_the_day tracks today r gc (set_last_run_file t w)
     = map_sum id (map_prod id (set_last_run_file t)) (song_of_the_day tracks today r gc w)"
  by (simp add: song_of_the_day_def load_channel_config_def pick_song_set_last_run
      split: sum.splits option.splits)

lemma is_allowed_set_last_run [simp]:
  "is_allowed i (set_last_run_file t w) = is_allowed i w"
  by (simp add: is_allowed_def load_allowed_roles_def split: sum.splits)

lemma test_sotd_set_last_run:
  "test_sotd i tracks today r gc (set_last_run_file t w)
     = map_sum id (set_last_run_file t) (test_sotd i tracks today r gc w)"
  by (simp add: test_sotd_def song_of_the_day_set_last_run split: sum.splits)

lemma set_last_run_file_same: "set_last_run_file (last_run_file (disk w)) w = w"
  by (simp add: set_last_run_file_def)

lemma test_sotd_last_run_frame:
  assumes "test_sotd i tracks today r gc w = Inr w'"
  shows "last_run_file (disk w') = last_run_file (disk w)"
proof -
  let ?t = "last_run_file (disk w)"
  have "test_sotd i tracks today r gc w
      = map_sum id (set_last_run_file ?t) (test_sotd i tracks today r gc w)"
    using test_sotd_set_last_run [of i tracks today r gc ?t w]
    unfolding set_last_run_file_same .
  then have "(Inr w' :: exn + world) = Inr (set_last_run_file ?t w')"
    unfolding assms map_sum.simps .
  then have "w' = set_last_run_file ?t w'" by (rule Inr_inject)
  then have "last_run_file (disk w') = last_run_file (disk (set_last_run_file ?t w'))"
    by (rule arg_cong)
  also have "\<dots> = ?t" by (rule set_last_run_fields(5))
  finally show ?thesis .
qed

lemma load_last_run_frame:
  assumes "load_last_run w = Inr (lr, w)" and "last_run_file (disk w') = last_run_file (disk w)"
  shows "load_last_run w' = Inr (lr, w')"
  using assms by (auto simp: load_last_run_def split: tfile.splits sum.splits)

text \<open>
  Claim C9, amended to authorized invocations for the run of the pipeline. When the
  invoking user is allowed, \<^verbatim>\<open>test_sotd\<close> replies and runs \<^verbatim>\<open>song_of_the_day\<close>, the same
  pipeline as the daily trigger, with no test of the time of day. For every invocation,
  allowed or not: the last-fired date on disk afterwards is the one before; the outcome
  does not depend on it (with anything else in \<^verbatim>\<open>last_run.txt\<close>, or without the file,
  the command does the same and leaves the file as it is); so a tick of the daily
  trigger that would have fired before the command, in the window with a last-fired
  date other than today, still takes the firing branch after it.
\<close>

theorem force_fire_leaves_last_run:
  "(is_allowed i w = Inr True \<longrightarrow>
      test_sotd i tracks today r gc w =
        (case song_of_the_day tracks today r gc
                (perform (Reply (''Forcing Song of the Day'' @ ellipsis)) w) of
           Inl e \<Rightarrow> Inl e
         | Inr (posted, w1) \<Rightarrow> Inr w1))
   \<and> (\<forall>w'. test_sotd i tracks today r gc w = Inr w'
         \<longrightarrow> last_run_file (disk w') = last_run_file (disk w))
   \<and> test_sotd i tracks today r gc (set_last_run_file t w)
       = map_sum id (set_last_run_file t) (test_sotd i tracks today r gc w)
   \<and> (\<forall>w' lr. test_sotd i tracks today r gc w = Inr w' \<and> load_last_run w = Inr (lr, w)
         \<and> lr \<noteq> Some (now_date now) \<and> in_window now
         \<longrightarrow> scheduler tracks2 now r2 gc w' =
              (case song_of_the_day tracks2 (now_date now) r2 gc w' of
                 Inl e \<Rightarrow> Inl e
               | Inr (posted, w2) \<Rightarrow> Inr (True, save_last_run (now_date now) w2)))"
proof (intro conjI allI impI)
  assume "is_allowed i w = Inr True"
  then show "test_sotd i tracks today r gc w =
        (case song_of_the_day tracks today r gc
                (perform (Reply (''Forcing Song of the Day'' @ ellipsis)) w) of
           Inl e \<Rightarrow> Inl e
         | Inr (posted, w1) \<Rightarrow> Inr w1)"
    by (simp add: test_sotd_def)
next
  fix w' assume "test_sotd i tracks today r gc w = Inr w'"
  then show "last_run_file (disk w') = last_run_file (disk w)" by (rule test_sotd_last_run_frame)
next
  show "test_sotd i tracks today r gc (set_last_run_file t w)
       = map_sum id (set_last_run_file t) (test_sotd i tracks today r gc w)"
    by (rule test_sotd_set_last_run)
next
  fix w' lr
  assume a: "test_sotd i tracks today r gc w = Inr w' \<and> load_last_run w = Inr (lr, w)
         \<and> lr \<noteq> Some (now_date now) \<and> in_window now"
  then have t: "test_sotd i tracks today r gc w = Inr w'" and ll: "load_last_run w = Inr (lr, w)"
    by blast+
  have l: "load_last_run w' = Inr (lr, w')"
    by (rule load_last_run_frame [OF ll test_sotd_last_run_frame [OF t]])
  with a show "scheduler tracks2 now r2 gc w' =
              (case song_of_the_day tracks2 (now_date now) r2 gc w' of
                 Inl e \<Rightarrow> Inl e
               | Inr (posted, w2) \<Rightarrow> Inr (True, save_last_run (now_date now) w2))"
    by (simp add: scheduler_def in_window_def)
qed

subsection \<open>Scheduling an override\<close>

lemma before_first_no_sep: "\<not> str_contains sep s \<Longrightarrow> before_first sep s = s"
  by (induction s) auto

lemma split_acc_eq:
  assumes "sep \<noteq> []"
  shows "split_acc sep cur s =
     (if str_contains sep s
      then (rev cur @ before_first sep s) # split_acc sep [] (after_first sep s)
      else [rev cur @ s])"
proof (induction s arbitrary: cur)
  case Nil
  show ?case using assms by simp
next
  case (Cons c cs)
  show ?case
  proof (cases "take (length sep) (c # cs) = sep")
    case True
    have "drop (length sep) (c # cs) = drop (length sep - 1) cs"
      using assms by (cases sep) simp_all
    with True assms show ?thesis by simp
  next
    case False
    with assms show ?thesis by (simp add: Cons.IH [of "c # cur"])
  qed
qed

lemma str_split_eq:
  assumes "sep \<noteq> []"
  shows "str_split sep s =
     (if str_contains sep s then before_first sep s # str_split sep (after_first sep s)
      else [s])"
  unfolding str_split_def by (subst split_acc_eq [OF assms]) simp

lemma str_split_first: "sep \<noteq> [] \<Longrightarrow> item (str_split sep s) 0 = Inr (before_first sep s)"
  by (subst str_split_eq) (auto simp: item_def before_first_no_sep)

lemma str_split_second:
  assumes "sep \<noteq> []" and "str_contains sep s"
  shows "item (str_split sep s) 1 = Inr (before_first sep (after_first sep s))"
proof -
  have "str_split sep s = before_first sep s # str_split sep (after_first sep s)"
    using assms by (subst str_split_eq) simp_all
  moreover have "item (str_split sep (after_first sep s)) 0
      = Inr (before_first sep (after_first sep s))"
    by (rule str_split_first [OF assms(1)])
  ultimately show ?thesis by (auto simp: item_def split: if_splits)
qed

lemma update_conv_map: "map_of (AList.update k v xs) = (map_of xs)(k \<mapsto> v)"
  by (rule update_conv')

text \<open>
  Claim C10, amended in where the track id ends. For an allowed user, an override file
  that is absent or holds text, a date string that is an ISO date and a URL containing
  \<^verbatim>\<open>/track/\<close>, the command succeeds: it replies that the song is scheduled and writes the
  override map with, under the date, the text of the URL after the first \<^verbatim>\<open>/track/\<close> up
  to the next \<^verbatim>\<open>/track/\<close> or \<^verbatim>\<open>?\<close>, whichever comes first, or up to the end. An entry
  already stored under the date is replaced and the other entries stay. The catalog is
  not consulted, so the id may name no track. When \<^verbatim>\<open>/track/\<close> does not occur a second
  time, the id is the text between the first \<^verbatim>\<open>/track/\<close> and the next \<^verbatim>\<open>?\<close>.
\<close>

theorem schedule_song_stores:
  assumes "is_allowed i w = Inr True"
    and "decodable (scheduled_songs_file (disk w))"
    and "fromisoformat date_str = Inr d"
    and "str_contains ''/track/'' u"
  shows "\<exists>tid w'. schedule_song i date_str u w = Inr w'
     \<and> tid = before_first ''?'' (before_first ''/track/'' (after_first ''/track/'' u))
     \<and> journal w' = journal w @ [WriteScheduledSongs (override_map w'), Reply ''Song scheduled.'']
     \<and> isoformat d = date_str
     \<and> override_map w' = AList.update (isoformat d) tid (override_map w)
     \<and> map_of (override_map w') = (map_of (override_map w))(isoformat d \<mapsto> tid)
     \<and> (\<not> str_contains ''/track/'' (after_first ''/track/'' u)
          \<longrightarrow> tid = id_between_track_and_query u)"
proof -
  let ?tail = "before_first ''/track/'' (after_first ''/track/'' u)"
  let ?tid = "before_first ''?'' ?tail"
  have "item (str_split ''/track/'' u) 1 = Inr ?tail"
    by (rule str_split_second [OF _ assms(4)]) simp
  then have 1: "item (str_split ''/track/'' u) (Suc 0) = Inr ?tail" by simp
  have 2: "item (str_split ''?'' ?tail) 0 = Inr ?tid"
    by (rule str_split_first) simp
  have iso: "isoformat d = date_str" by (rule fromisoformat_isoformat [OF assms(3)])
  let ?w' = "perform (Reply ''Song scheduled.'')
      (save_scheduled_songs (AList.update date_str ?tid (override_map w)) w)"
  have run: "schedule_song i date_str u w = Inr ?w'"
    unfolding schedule_song_def
    using assms by (simp add: 1 2 iso loaders_decodable del: str_contains.simps)
  have om: "override_map ?w' = AList.update date_str ?tid (override_map w)"
    by (simp add: used_set_simps save_scheduled_songs_def)
  have j: "journal ?w' = journal w @ [WriteScheduledSongs (override_map ?w'), Reply ''Song scheduled.'']"
    unfolding om by (simp add: save_scheduled_songs_def)
  have m: "map_of (override_map ?w') = (map_of (override_map w))(date_str \<mapsto> ?tid)"
    unfolding om by (rule update_conv_map)
  have single: "\<not> str_contains ''/track/'' (after_first ''/track/'' u)
          \<longrightarrow> ?tid = id_between_track_and_query u"
    by (simp add: id_between_track_and_query_def before_first_no_sep del: str_contains.simps)
  show ?thesis
    apply (rule exI [of _ ?tid], rule exI [of _ ?w'])
    apply (intro conjI)
          apply (rule run)
         apply (rule refl)
        apply (rule j)
       apply (rule iso)
      apply (simp only: iso om)
     apply (simp only: iso m)
    apply (rule single)
    done
qed

subsection \<open>The same properties in \<^verbatim>\<open>song_of_day_bot.py\<close>\<close>

text \<open>
  The earlier file has no overrides and selects inside its main action. With state
  files that parse, an empty catalog changes nothing; the selection is the random path
  above, wrap-around included; its trigger fires under the same guard on the last-fired
  date (without the test of the seconds); and its manual trigger leaves the last-fired
  date alone.
\<close>

lemma song_of_the_day_bot_empty_catalog:
  assumes "channel_config_file (disk w) = Absent \<or> (\<exists>cc. channel_config_file (disk w) = Doc cc)"
    and "used_songs_file (disk w) = Absent \<or> (\<exists>u. used_songs_file (disk w) = Doc u)"
  shows "song_of_the_day_bot [] today r gc w = Inr (None, w)"
  using assms
  by (auto simp: song_of_the_day_bot_def load_channel_config_bot_def load_used_songs_bot_def)

lemma song_of_the_day_bot_selects:
  assumes "channel_config_file (disk w) = Doc cc" and "cc \<noteq> []"
    and "used_songs_file (disk w) = Doc u" and "tracks \<noteq> []"
  shows "\<exists>song u'. song_of_the_day_bot tracks today r gc w =
        Inr (Some song, dispatch gc today song (map snd cc)
                          (save_used_songs (insert (track_id song) u') w))
     \<and> song \<in> set tracks
     \<and> (if track_id ` set tracks \<subseteq> u
         then u' = {} \<and> song = tracks ! (r mod length tracks)
         else u' = u \<and> track_id song \<notin> u)"
proof (cases "track_id ` set tracks \<subseteq> u")
  case True
  then have e: "filter (\<lambda>t. track_id t \<notin> u) tracks = []" by (auto simp: filter_empty_conv)
  have m: "tracks ! (r mod length tracks) \<in> set tracks" using assms(4) by simp
  show ?thesis
    using assms True m
    by (simp add: song_of_the_day_bot_def load_channel_config_bot_def load_used_songs_bot_def
          choice_def Let_def e)
next
  case False
  let ?unused = "filter (\<lambda>t. track_id t \<notin> u) tracks"
  from False have ne: "?unused \<noteq> []" by (auto simp: filter_empty_conv)
  let ?s = "?unused ! (r mod length ?unused)"
  have "?s \<in> set ?unused" using ne by (intro nth_mem) simp
  then have m: "?s \<in> set tracks" "track_id ?s \<notin> u" by auto
  show ?thesis
    using assms False m ne
    by (simp add: song_of_the_day_bot_def load_channel_config_bot_def load_used_songs_bot_def
          choice_def Let_def)
qed

lemma song_of_the_day_bot_wrap_around:
  assumes "channel_config_file (disk w) = Doc cc" and "cc \<noteq> []"
    and "used_songs_file (disk w) = Doc u" and "tracks \<noteq> []"
    and "track_id ` set tracks \<subseteq> u"
  shows "\<exists>w'. song_of_the_day_bot tracks today r gc w = Inr (Some (tracks ! (r mod length tracks)), w')
     \<and> used_songs_file (disk w') = Doc {track_id (tracks ! (r mod length tracks))}"
  using song_of_the_day_bot_selects [OF assms(1-4), of today r gc] assms(5)
  by (auto simp: save_used_songs_def)

lemma scheduler_bot_idle:
  assumes "load_last_run w = Inr (lr, w)"
    and "lr = Some (now_date now)
         \<or> \<not> (now_hour now = POST_HOUR_bot \<and> now_minute now = POST_MINUTE_bot)"
  shows "scheduler_bot tracks now r gc w = Inr (False, w)"
  using assms by (auto simp: scheduler_bot_def)

lemma scheduler_bot_fires:
  assumes "load_last_run w = Inr (lr, w)" and "lr \<noteq> Some (now_date now)"
    and "now_hour now = POST_HOUR_bot" and "now_minute now = POST_MINUTE_bot"
    and "song_of_the_day_bot tracks (now_date now) r gc w = Inr (song, w2)"
  shows "scheduler_bot tracks now r gc w = Inr (True, save_last_run (now_date now) w2)"
  using assms by (simp add: scheduler_bot_def)

lemma song_of_the_day_bot_last_run:
  assumes "song_of_the_day_bot tracks today r gc w = Inr (song, w')"
  shows "last_run_file (disk w') = last_run_file (disk w)"
  using assms
  by (auto simp: song_of_the_day_bot_def load_channel_config_bot_def load_used_songs_bot_def
        choice_def Let_def save_used_songs_def
      split: jfile.splits if_splits)

lemma testsong_last_run:
  assumes "testsong tracks today r gc w = Inr w'"
  shows "last_run_file (disk w') = last_run_file (disk w)"
proof -
  from assms obtain song where
    "song_of_the_day_bot tracks today r gc (perform (Reply ''Posting test Song of the Day...'') w)
       = Inr (song, w')"
    by (auto simp: testsong_def split: sum.splits)
  from song_of_the_day_bot_last_run [OF this] show ?thesis by simp
qed

subsection \<open>What the program writes, it can load\<close>

text \<open>
  Several statements above are made for state files that are absent or hold text, and
  for an override map whose keys parse as ISO dates. Both are invariants of the files
  under the program: every write leaves a JSON document, \<^verbatim>\<open>schedule_song\<close> stores under
  \<^verbatim>\<open>target.isoformat()\<close>, \<^verbatim>\<open>unschedule_song\<close> and \<^verbatim>\<open>clear_schedule\<close> only remove keys,
  and \<^verbatim>\<open>pick_song\<close> only pops one. Without them the selection raises whenever the
  catalog is not empty: \<^verbatim>\<open>UnicodeDecodeError\<close> on a file that is not text
  (\<open>pick_song_undecodable\<close>), \<^verbatim>\<open>ValueError\<close> on a key that does not parse
  (\<open>pick_song_bad_key\<close>).
\<close>

lemma perform_decodable:
  "decodable (used_songs_file (disk w)) \<Longrightarrow> decodable (used_songs_file (disk (perform e w)))"
  "decodable (channel_config_file (disk w)) \<Longrightarrow> decodable (channel_config_file (disk (perform e w)))"
  "decodable (scheduled_songs_file (disk w)) \<Longrightarrow> decodable (scheduled_songs_file (disk (perform e w)))"
  "decodable (allowed_roles_file (disk w)) \<Longrightarrow> decodable (allowed_roles_file (disk (perform e w)))"
  by (cases e; simp)+

lemma is_iso_update:
  "is_iso k \<Longrightarrow> list_all is_iso (map fst xs) \<Longrightarrow> list_all is_iso (map fst (AList.update k v xs))"
  by (induction xs) auto

lemma is_iso_isoformat: "fromisoformat s = Inr d \<Longrightarrow> is_iso (isoformat d)"
  by (simp add: fromisoformat_isoformat is_iso_def)

lemma override_map_reply [simp]: "override_map (perform (Reply m) w) = override_map w"
  by (simp add: used_set_simps)

lemma override_keys_stay_iso:
  assumes "list_all is_iso (map fst (override_map w))"
  shows "schedule_song i date_str u w = Inr w' \<Longrightarrow> list_all is_iso (map fst (override_map w'))"
    and "unschedule_song i date_str w = Inr w' \<Longrightarrow> list_all is_iso (map fst (override_map w'))"
    and "clear_schedule i w = Inr w' \<Longrightarrow> list_all is_iso (map fst (override_map w'))"
proof -
  {
    assume s: "unschedule_song i date_str w = Inr w'"
    show "list_all is_iso (map fst (override_map w'))"
    proof (cases "decodable (scheduled_songs_file (disk w))")
      case True
      from s assms is_iso_delete [OF assms, of date_str] show ?thesis
        by (auto simp: unschedule_song_def loaders_decodable(2) [OF True]
            split: sum.splits if_splits)
    next
      case False
      from s assms show ?thesis
        by (auto simp: unschedule_song_def loaders_undecodable(2) [OF False]
            split: sum.splits if_splits)
    qed
  }
  {
    assume s: "clear_schedule i w = Inr w'"
    with assms show "list_all is_iso (map fst (override_map w'))"
      by (auto simp: clear_schedule_def split: sum.splits if_splits)
  }
  assume s: "schedule_song i date_str u w = Inr w'"
  show "list_all is_iso (map fst (override_map w'))"
  proof (cases "fromisoformat date_str")
    case (Inl e)
    with s assms show ?thesis by (auto simp: schedule_song_def split: sum.splits if_splits)
  next
    case (Inr d)
    note up = is_iso_update [OF is_iso_isoformat [OF Inr] assms]
    show ?thesis
    proof (cases "decodable (scheduled_songs_file (disk w))")
      case True
      from s Inr assms up show ?thesis
        by (auto simp: schedule_song_def loaders_decodable(2) [OF True]
            split: if_splits sum.splits)
    next
      case False
      from s Inr assms show ?thesis
        by (auto simp: schedule_song_def loaders_undecodable(2) [OF False]
            split: if_splits sum.splits)
    qed
  qed
qed

section \<open>Worked instances\<close>

subsection \<open>Overrides\<close>

text \<open>
  An instance: two overrides are due on 2024-01-06, and the one dated 2024-01-02 is
  taken although its track is already in the used-set; the one dated 2024-01-05 stays.
\<close>

theorem due_override_consumed_witness:
  "[track_a, track_b] \<noteq> []
   \<and> list_all is_iso
        (map fst (override_map
           (mk_world (Doc {''a''}) (Doc [(''g'', 1)])
              (Doc [(''2024-01-05'', ''b''), (''2024-01-02'', ''a'')]) Missing)))
   \<and> is_due (2024, 1, 6) ''2024-01-02''
   \<and> pick_song [track_a, track_b] (2024, 1, 6) 0
        (mk_world (Doc {''a''}) (Doc [(''g'', 1)])
           (Doc [(''2024-01-05'', ''b''), (''2024-01-02'', ''a'')]) Missing)
      = Inr (Some track_a,
          \<lparr>disk = \<lparr>used_songs_file = Doc {''a''}, channel_config_file = Doc [(''g'', 1)],
                    scheduled_songs_file = Doc [(''2024-01-05'', ''b'')],
                    allowed_roles_file = Absent, last_run_file = Missing\<rparr>,
           journal = [WriteScheduledSongs [(''2024-01-05'', ''b'')], WriteUsedSongs {''a''}]\<rparr>)"
proof -
  let ?w = "mk_world (Doc {''a''}) (Doc [(''g'', 1)])
              (Doc [(''2024-01-05'', ''b''), (''2024-01-02'', ''a'')]) Missing"
  have h1: "[track_a, track_b] \<noteq> []" by simp
  have du: "decodable (used_songs_file (disk ?w))" by simp
  have ds: "decodable (scheduled_songs_file (disk ?w))" by simp
  have h2: "list_all is_iso (map fst (override_map ?w))" by code_simp
  have d: "is_due (2024, 1, 6) ''2024-01-02''" by code_simp
  have h3: "\<exists>k \<in> set (map fst (override_map ?w)). is_due (2024, 1, 6) k"
    using d by (simp add: used_set_simps)
  have c: "pick_song [track_a, track_b] (2024, 1, 6) 0 ?w
      = Inr (Some track_a,
          \<lparr>disk = \<lparr>used_songs_file = Doc {''a''}, channel_config_file = Doc [(''g'', 1)],
                    scheduled_songs_file = Doc [(''2024-01-05'', ''b'')],
                    allowed_roles_file = Absent, last_run_file = Missing\<rparr>,
           journal = [WriteScheduledSongs [(''2024-01-05'', ''b'')], WriteUsedSongs {''a''}]\<rparr>)"
    by code_simp
  note t = due_override_consumed [OF h1 du ds h2 h3, of 0]
  from t h1 h2 d c show ?thesis by - (intro conjI; assumption)
qed

text \<open>
  The claim as first stated quantifies over every catalog. Against the empty catalog a
  due override is not consumed: \<^verbatim>\<open>pick_song\<close> returns before it reads the override map.
\<close>

theorem due_override_empty_catalog_counterexample:
  "is_due (2024, 1, 6) ''2024-01-02''
   \<and> override_map (mk_world (Doc {}) (Doc [(''g'', 1)]) (Doc [(''2024-01-02'', ''a'')]) Missing)
       = [(''2024-01-02'', ''a'')]
   \<and> pick_song [] (2024, 1, 6) 0
         (mk_world (Doc {}) (Doc [(''g'', 1)]) (Doc [(''2024-01-02'', ''a'')]) Missing)
       = Inr (None, mk_world (Doc {}) (Doc [(''g'', 1)]) (Doc [(''2024-01-02'', ''a'')]) Missing)"
  by code_simp

text \<open>
  An instance: the override dated 2024-01-02 names the track \<open>zz\<close>, which the catalog
  does not hold.
\<close>

theorem dangling_override_consumed_witness:
  "[track_b] \<noteq> []
   \<and> list_all is_iso
        (map fst (override_map
           (mk_world (Doc {''b''}) (Doc [(''g'', 1)])
              (Doc [(''2024-01-05'', ''b''), (''2024-01-02'', ''zz'')]) Missing)))
   \<and> is_due (2024, 1, 6) ''2024-01-02''
   \<and> date_of ''2024-01-02'' \<le> date_of ''2024-01-05''
   \<and> pick_song [track_b] (2024, 1, 6) 0
        (mk_world (Doc {''b''}) (Doc [(''g'', 1)])
           (Doc [(''2024-01-05'', ''b''), (''2024-01-02'', ''zz'')]) Missing)
      = Inr (None,
          \<lparr>disk = \<lparr>used_songs_file = Doc {''b''}, channel_config_file = Doc [(''g'', 1)],
                    scheduled_songs_file = Doc [(''2024-01-05'', ''b'')],
                    allowed_roles_file = Absent, last_run_file = Missing\<rparr>,
           journal = [WriteScheduledSongs [(''2024-01-05'', ''b'')]]\<rparr>)"
proof -
  let ?w = "mk_world (Doc {''b''}) (Doc [(''g'', 1)])
              (Doc [(''2024-01-05'', ''b''), (''2024-01-02'', ''zz'')]) Missing"
  have om: "override_map ?w = [(''2024-01-05'', ''b''), (''2024-01-02'', ''zz'')]"
    by (simp add: used_set_simps)
  have h1: "[track_b] \<noteq> []" by simp
  have du: "decodable (used_songs_file (disk ?w))" by simp
  have ds: "decodable (scheduled_songs_file (disk ?w))" by simp
  have h2: "list_all is_iso (map fst (override_map ?w))" by code_simp
  have h3: "''2024-01-02'' \<in> set (map fst (override_map ?w))" by (simp add: used_set_simps)
  have h4: "is_due (2024, 1, 6) ''2024-01-02''" by code_simp
  have le: "date_of ''2024-01-02'' \<le> date_of ''2024-01-05''" by code_simp
  have h5: "\<forall>k' \<in> set (map fst (override_map ?w)).
      is_due (2024, 1, 6) k' \<longrightarrow> date_of ''2024-01-02'' \<le> date_of k'"
    using le by (simp add: used_set_simps)
  have h6: "map_of (override_map ?w) ''2024-01-02'' = Some ''zz''" by (simp add: used_set_simps)
  have h7: "''zz'' \<notin> track_id ` set [track_b]" by simp
  note t = dangling_override_consumed [OF h1 du ds h2 h3 h4 h5 h6 h7, of 0]
  then obtain w' where p: "pick_song [track_b] (2024, 1, 6) 0 ?w = Inr (None, w')"
    and o: "override_map w' = filter (\<lambda>e. fst e \<noteq> ''2024-01-02'') (override_map ?w)"
    and u: "used_songs_file (disk w') = used_songs_file (disk ?w)"
    and j: "journal w' = journal ?w @ [WriteScheduledSongs (override_map w')]"
    by blast
  have c: "pick_song [track_b] (2024, 1, 6) 0 ?w
      = Inr (None,
          \<lparr>disk = \<lparr>used_songs_file = Doc {''b''}, channel_config_file = Doc [(''g'', 1)],
                    scheduled_songs_file = Doc [(''2024-01-05'', ''b'')],
                    allowed_roles_file = Absent, last_run_file = Missing\<rparr>,
           journal = [WriteScheduledSongs [(''2024-01-05'', ''b'')]]\<rparr>)"
    by code_simp
  from t h1 h2 h4 le c show ?thesis by - (intro conjI; assumption)
qed

subsection \<open>The random path\<close>

text \<open>
  Both catalog tracks are used and the only override is not yet due: the draw 1 picks
  the second track of the full catalog, and the used-set restarts with its id alone.
\<close>

theorem wrap_around_witness:
  "[track_a, track_b] \<noteq> []
   \<and> list_all is_iso (map fst (override_map
        (mk_world (Doc {''a'', ''b''}) (Doc [(''g'', 1)]) (Doc [(''2024-01-09'', ''a'')]) Missing)))
   \<and> list_all (\<lambda>k. \<not> is_due (2024, 1, 6) k) (map fst (override_map
        (mk_world (Doc {''a'', ''b''}) (Doc [(''g'', 1)]) (Doc [(''2024-01-09'', ''a'')]) Missing)))
   \<and> pick_song [track_a, track_b] (2024, 1, 6) 1
        (mk_world (Doc {''a'', ''b''}) (Doc [(''g'', 1)]) (Doc [(''2024-01-09'', ''a'')]) Missing)
      = Inr (Some track_b,
          \<lparr>disk = \<lparr>used_songs_file = Doc {''b''}, channel_config_file = Doc [(''g'', 1)],
                    scheduled_songs_file = Doc [(''2024-01-09'', ''a'')],
                    allowed_roles_file = Absent, last_run_file = Missing\<rparr>,
           journal = [WriteUsedSongs {''b''}]\<rparr>)"
proof -
  let ?w = "mk_world (Doc {''a'', ''b''}) (Doc [(''g'', 1)]) (Doc [(''2024-01-09'', ''a'')]) Missing"
  have h1: "[track_a, track_b] \<noteq> []" by simp
  have du: "decodable (used_songs_file (disk ?w))" by simp
  have ds: "decodable (scheduled_songs_file (disk ?w))" by simp
  have h2: "list_all is_iso (map fst (override_map ?w))" by code_simp
  have h3: "list_all (\<lambda>k. \<not> is_due (2024, 1, 6) k) (map fst (override_map ?w))" by code_simp
  have h4: "track_id ` set [track_a, track_b] \<subseteq> used_set ?w" by (simp add: used_set_simps)
  have c: "pick_song [track_a, track_b] (2024, 1, 6) 1 ?w
      = Inr (Some track_b,
          \<lparr>disk = \<lparr>used_songs_file = Doc {''b''}, channel_config_file = Doc [(''g'', 1)],
                    scheduled_songs_file = Doc [(''2024-01-09'', ''a'')],
                    allowed_roles_file = Absent, last_run_file = Missing\<rparr>,
           journal = [WriteUsedSongs {''b''}]\<rparr>)"
    by code_simp
  note t = wrap_around [OF h1 du ds h2 h3 h4, of 1]
  from t h1 h2 h3 c show ?thesis by - (intro conjI; assumption)
qed

text \<open>Two selections from a catalog of two tracks, starting with no used-set file.\<close>

theorem no_repeat_witness:
  "distinct (map track_id [track_a, track_b])
   \<and> list_all is_iso (map fst (override_map
        (mk_world Absent (Doc [(''g'', 1)]) (Doc [(''2024-01-09'', ''a'')]) Missing)))
   \<and> used_set (mk_world Absent (Doc [(''g'', 1)]) (Doc [(''2024-01-09'', ''a'')]) Missing) = {}
   \<and> length ([((2024, 1, 6), 0), ((2024, 1, 7), 0)] :: (date \<times> nat) list) \<le> length [track_a, track_b]
   \<and> pick_songs [track_a, track_b] [((2024, 1, 6), 0), ((2024, 1, 7), 0)]
        (mk_world Absent (Doc [(''g'', 1)]) (Doc [(''2024-01-09'', ''a'')]) Missing)
      = Inr ([Some track_a, Some track_b],
          \<lparr>disk = \<lparr>used_songs_file = Doc {''a'', ''b''}, channel_config_file = Doc [(''g'', 1)],
                    scheduled_songs_file = Doc [(''2024-01-09'', ''a'')],
                    allowed_roles_file = Absent, last_run_file = Missing\<rparr>,
           journal = [WriteUsedSongs {''a''}, WriteUsedSongs {''a'', ''b''}]\<rparr>)"
proof -
  let ?w = "mk_world Absent (Doc [(''g'', 1)]) (Doc [(''2024-01-09'', ''a'')]) Missing"
  let ?days = "[((2024, 1, 6), 0), ((2024, 1, 7), 0 :: nat)] :: (date \<times> nat) list"
  have h0: "distinct (map track_id [track_a, track_b])" by simp
  have du: "decodable (used_songs_file (disk ?w))" by simp
  have ds: "decodable (scheduled_songs_file (disk ?w))" by simp
  have h1: "list_all is_iso (map fst (override_map ?w))" by code_simp
  have h2: "list_all (\<lambda>d. list_all (\<lambda>k. \<not> is_due (fst d) k) (map fst (override_map ?w))) ?days"
    by code_simp
  have h3: "used_set ?w = {}" by (simp add: used_set_simps)
  have h4: "length ?days \<le> length [track_a, track_b]" by simp
  have c: "pick_songs [track_a, track_b] ?days ?w
      = Inr ([Some track_a, Some track_b],
          \<lparr>disk = \<lparr>used_songs_file = Doc {''a'', ''b''}, channel_config_file = Doc [(''g'', 1)],
                    scheduled_songs_file = Doc [(''2024-01-09'', ''a'')],
                    allowed_roles_file = Absent, last_run_file = Missing\<rparr>,
           journal = [WriteUsedSongs {''a''}, WriteUsedSongs {''a'', ''b''}]\<rparr>)"
    by code_simp
  note t = no_repeat [OF h0 du ds h1 h2 h3 h4]
  from t h0 h1 h3 h4 c show ?thesis by - (intro conjI; assumption)
qed

text \<open>
  The ids of the catalog have to be distinct for the bound to be the size of the
  catalog. Were one id to occur twice, the second of two selections would find nothing
  unused, clear the used-set and choose that id again; the bound that holds of any list
  of tracks is the number of its distinct ids (\<open>pick_songs_distinct_ids\<close>).
\<close>

lemma pick_songs_duplicate_ids:
  "pick_songs [track_a, track_a2] [((2024, 1, 6), 0), ((2024, 1, 7), 0)]
        (mk_world Absent (Doc [(''g'', 1)]) Absent Missing)
      = Inr ([Some track_a, Some track_a],
          \<lparr>disk = \<lparr>used_songs_file = Doc {''a''}, channel_config_file = Doc [(''g'', 1)],
                    scheduled_songs_file = Absent,
                    allowed_roles_file = Absent, last_run_file = Missing\<rparr>,
           journal = [WriteUsedSongs {''a''}, WriteUsedSongs {''a''}]\<rparr>)"
  by code_simp

subsection \<open>The daily trigger\<close>


subsection \<open>State files\<close>



subsection \<open>The main action and the commands\<close>

text \<open>
  A firing that takes the earlier of two due overrides and announces it to two
  channels: two writes, then two announcements; after two effects the files are already
  in their final state, with the consumed entry gone, the other entry kept and the
  track's id in the used-set.
\<close>

theorem state_persisted_before_dispatch_witness:
  "song_of_the_day [track_a, track_b] (2024, 1, 6) 0 (\<lambda>c. True)
     (mk_world (Doc {''a''}) (Doc [(''g'', 1), (''h'', 2)])
        (Doc [(''2024-01-05'', ''a''), (''2024-01-02'', ''b'')]) Missing)
   = Inr (True,
       \<lparr>disk = \<lparr>used_songs_file = Doc {''a'', ''b''},
                 channel_config_file = Doc [(''g'', 1), (''h'', 2)],
                 scheduled_songs_file = Doc [(''2024-01-05'', ''a'')],
                 allowed_roles_file = Absent, last_run_file = Missing\<rparr>,
        journal = [WriteScheduledSongs [(''2024-01-05'', ''a'')], WriteUsedSongs {''a'', ''b''},
                   Send 1 (2024, 1, 6) track_b, Send 2 (2024, 1, 6) track_b]\<rparr>)
   \<and> disk_after 2
       (mk_world (Doc {''a''}) (Doc [(''g'', 1), (''h'', 2)])
          (Doc [(''2024-01-05'', ''a''), (''2024-01-02'', ''b'')]) Missing)
       \<lparr>disk = \<lparr>used_songs_file = Doc {''a'', ''b''},
                 channel_config_file = Doc [(''g'', 1), (''h'', 2)],
                 scheduled_songs_file = Doc [(''2024-01-05'', ''a'')],
                 allowed_roles_file = Absent, last_run_file = Missing\<rparr>,
        journal = [WriteScheduledSongs [(''2024-01-05'', ''a'')], WriteUsedSongs {''a'', ''b''},
                   Send 1 (2024, 1, 6) track_b, Send 2 (2024, 1, 6) track_b]\<rparr>
     = \<lparr>used_songs_file = Doc {''a'', ''b''},
          channel_config_file = Doc [(''g'', 1), (''h'', 2)],
          scheduled_songs_file = Doc [(''2024-01-05'', ''a'')],
          allowed_roles_file = Absent, last_run_file = Missing\<rparr>"
proof -
  let ?w = "mk_world (Doc {''a''}) (Doc [(''g'', 1), (''h'', 2)])
              (Doc [(''2024-01-05'', ''a''), (''2024-01-02'', ''b'')]) Missing"
  let ?w' = "\<lparr>disk = \<lparr>used_songs_file = Doc {''a'', ''b''},
                 channel_config_file = Doc [(''g'', 1), (''h'', 2)],
                 scheduled_songs_file = Doc [(''2024-01-05'', ''a'')],
                 allowed_roles_file = Absent, last_run_file = Missing\<rparr>,
        journal = [WriteScheduledSongs [(''2024-01-05'', ''a'')], WriteUsedSongs {''a'', ''b''},
                   Send 1 (2024, 1, 6) track_b, Send 2 (2024, 1, 6) track_b]\<rparr>"
  have c: "song_of_the_day [track_a, track_b] (2024, 1, 6) 0 (\<lambda>c. True) ?w = Inr (True, ?w')"
    by code_simp
  have d: "disk_after 2 ?w ?w' = \<lparr>used_songs_file = Doc {''a'', ''b''},
          channel_config_file = Doc [(''g'', 1), (''h'', 2)],
          scheduled_songs_file = Doc [(''2024-01-05'', ''a'')],
          allowed_roles_file = Absent, last_run_file = Missing\<rparr>"
    by code_simp
  note t = state_persisted_before_dispatch [OF c]
  from t c d show ?thesis by - (intro conjI; assumption)
qed

text \<open>An administrator forces a firing: the track is posted and \<^verbatim>\<open>last_run.txt\<close> keeps
  yesterday's date.\<close>

theorem force_fire_leaves_last_run_witness:
  "is_allowed \<lparr>administrator = True, guild_id = ''7'', user_roles = []\<rparr>
      (mk_world (Doc {}) (Doc [(''7'', 1)]) Absent (Text ''2024-01-05'')) = Inr True
   \<and> test_sotd \<lparr>administrator = True, guild_id = ''7'', user_roles = []\<rparr>
        [track_a] (2024, 1, 6) 0 (\<lambda>c. True)
        (mk_world (Doc {}) (Doc [(''7'', 1)]) Absent (Text ''2024-01-05''))
      = Inr \<lparr>disk = \<lparr>used_songs_file = Doc {''a''}, channel_config_file = Doc [(''7'', 1)],
                     scheduled_songs_file = Absent, allowed_roles_file = Absent,
                     last_run_file = Text ''2024-01-05''\<rparr>,
            journal = [Reply (''Forcing Song of the Day'' @ ellipsis), WriteUsedSongs {''a''},
                       Send 1 (2024, 1, 6) track_a]\<rparr>
   \<and> last_run_file (disk
        \<lparr>disk = \<lparr>used_songs_file = Doc {''a''}, channel_config_file = Doc [(''7'', 1)],
                     scheduled_songs_file = Absent, allowed_roles_file = Absent,
                     last_run_file = Text ''2024-01-05''\<rparr>,
            journal = [Reply (''Forcing Song of the Day'' @ ellipsis), WriteUsedSongs {''a''},
                       Send 1 (2024, 1, 6) track_a]\<rparr>) = Text ''2024-01-05''"
proof -
  let ?i = "\<lparr>administrator = True, guild_id = ''7'', user_roles = []\<rparr>"
  let ?w = "mk_world (Doc {}) (Doc [(''7'', 1)]) Absent (Text ''2024-01-05'')"
  let ?w' = "\<lparr>disk = \<lparr>used_songs_file = Doc {''a''}, channel_config_file = Doc [(''7'', 1)],
                     scheduled_songs_file = Absent, allowed_roles_file = Absent,
                     last_run_file = Text ''2024-01-05''\<rparr>,
            journal = [Reply (''Forcing Song of the Day'' @ ellipsis), WriteUsedSongs {''a''},
                       Send 1 (2024, 1, 6) track_a]\<rparr>"
  have h: "is_allowed ?i ?w = Inr True" by (simp add: is_allowed_def)
  have c: "test_sotd ?i [track_a] (2024, 1, 6) 0 (\<lambda>c. True) ?w = Inr ?w'" by code_simp
  note t = force_fire_leaves_last_run [of ?i ?w "[track_a]" "(2024, 1, 6)" 0 "\<lambda>c. True"]
  from t c have l: "last_run_file (disk ?w') = last_run_file (disk ?w)" by blast
  have "last_run_file (disk ?w') = Text ''2024-01-05''" unfolding l by simp
  with h c show ?thesis by - (intro conjI; assumption)
qed

text \<open>
  The claim as first stated has the pipeline run on every invocation. For a user who is
  neither administrator nor holder of an allowed role the command only replies, where
  the pipeline on the same world would have posted a track.
\<close>

theorem force_fire_unauthorized_counterexample:
  "test_sotd \<lparr>administrator = False, guild_id = ''7'', user_roles = [''member'']\<rparr>
        [track_a] (2024, 1, 6) 0 (\<lambda>c. True)
        (mk_world (Doc {}) (Doc [(''7'', 1)]) Absent Missing)
      = Inr \<lparr>disk = \<lparr>used_songs_file = Doc {}, channel_config_file = Doc [(''7'', 1)],
                     scheduled_songs_file = Absent, allowed_roles_file = Absent,
                     last_run_file = Missing\<rparr>,
            journal = [Reply ''Permission denied.'']\<rparr>
   \<and> song_of_the_day [track_a] (2024, 1, 6) 0 (\<lambda>c. True)
        (mk_world (Doc {}) (Doc [(''7'', 1)]) Absent Missing)
      = Inr (True,
            \<lparr>disk = \<lparr>used_songs_file = Doc {''a''}, channel_config_file = Doc [(''7'', 1)],
                     scheduled_songs_file = Absent, allowed_roles_file = Absent,
                     last_run_file = Missing\<rparr>,
            journal = [WriteUsedSongs {''a''}, Send 1 (2024, 1, 6) track_a]\<rparr>)"
  by code_simp

text \<open>An administrator schedules a track for a date that already has an override.\<close>

theorem schedule_song_stores_witness:
  "is_allowed \<lparr>administrator = True, guild_id = ''7'', user_roles = []\<rparr>
      (mk_world Absent Absent (Doc [(''2024-01-02'', ''old'')]) Missing) = Inr True
   \<and> decodable (scheduled_songs_file (disk
        (mk_world Absent Absent (Doc [(''2024-01-02'', ''old'')]) Missing)))
   \<and> fromisoformat ''2024-01-02'' = Inr (2024, 1, 2)
   \<and> str_contains ''/track/'' ''https://open.spotify.com/track/abc?si=1''
   \<and> schedule_song \<lparr>administrator = True, guild_id = ''7'', user_roles = []\<rparr>
        ''2024-01-02'' ''https://open.spotify.com/track/abc?si=1''
        (mk_world Absent Absent (Doc [(''2024-01-02'', ''old'')]) Missing)
      = Inr \<lparr>disk = \<lparr>used_songs_file = Absent, channel_config_file = Absent,
                     scheduled_songs_file = Doc [(''2024-01-02'', ''abc'')],
                     allowed_roles_file = Absent, last_run_file = Missing\<rparr>,
            journal = [WriteScheduledSongs [(''2024-01-02'', ''abc'')],
                       Reply ''Song scheduled.'']\<rparr>"
proof -
  let ?i = "\<lparr>administrator = True, guild_id = ''7'', user_roles = []\<rparr>"
  let ?w = "mk_world Absent Absent (Doc [(''2024-01-02'', ''old'')]) Missing"
  have h1: "is_allowed ?i ?w = Inr True" by (simp add: is_allowed_def)
  have hd: "decodable (scheduled_songs_file (disk ?w))" by simp
  have h2: "fromisoformat ''2024-01-02'' = Inr (2024, 1, 2)" by code_simp
  have h3: "str_contains ''/track/'' ''https://open.spotify.com/track/abc?si=1''" by code_simp
  have c: "schedule_song ?i ''2024-01-02'' ''https://open.spotify.com/track/abc?si=1'' ?w
      = Inr \<lparr>disk = \<lparr>used_songs_file = Absent, channel_config_file = Absent,
                     scheduled_songs_file = Doc [(''2024-01-02'', ''abc'')],
                     allowed_roles_file = Absent, last_run_file = Missing\<rparr>,
            journal = [WriteScheduledSongs [(''2024-01-02'', ''abc'')],
                       Reply ''Song scheduled.'']\<rparr>"
    by code_simp
  note t = schedule_song_stores [OF h1 hd h2 h3]
  from t h1 hd h2 h3 c show ?thesis by - (intro conjI; assumption)
qed

text \<open>
  The claim as first stated takes the id up to the next \<^verbatim>\<open>?\<close>. With a second
  \<^verbatim>\<open>/track/\<close> before the \<^verbatim>\<open>?\<close> the command stores only the text between the two.
\<close>

theorem schedule_song_second_track_counterexample:
  "schedule_song \<lparr>administrator = True, guild_id = ''7'', user_roles = []\<rparr>
        ''2024-01-02'' ''https://open.spotify.com/track/abc/track/def?si=1''
        (mk_world Absent Absent Absent Missing)
      = Inr \<lparr>disk = \<lparr>used_songs_file = Absent, channel_config_file = Absent,
                     scheduled_songs_file = Doc [(''2024-01-02'', ''abc'')],
                     allowed_roles_file = Absent, last_run_file = Missing\<rparr>,
            journal = [WriteScheduledSongs [(''2024-01-02'', ''abc'')],
                       Reply ''Song scheduled.'']\<rparr>
   \<and> id_between_track_and_query ''https://open.spotify.com/track/abc/track/def?si=1''
       = ''abc/track/def''"
  by code_simp

end
